theory Spec2Isabelle
  imports Complex_Main
begin

section \<open>Numbers of the source language\<close>

text \<open>
  The solvers of \<^verbatim>\<open>src/App.tsx\<close> compute on JavaScript numbers, that is on
  IEEE 754 binary64. A number is modelled as \<open>NaN\<close>, one of the two infinities, or a
  finite value carried as the real it denotes. The arithmetic operators and
  \<^verbatim>\<open>Math.sqrt\<close> round the exact result to the nearest binary64 value, ties to the even
  significand, and overflow to an infinity, as IEEE 754 and ECMA-262 prescribe. The
  two zeros are one value.
\<close>

datatype jsnum = NaN | PInf | NInf | Num real

definition isNaN :: "jsnum \<Rightarrow> bool" where
  "isNaN x = (x = NaN)"

fun isFinite :: "jsnum \<Rightarrow> bool" where
  "isFinite (Num x) = True"
| "isFinite _ = False"

subsection \<open>Rounding to binary64\<close>

text \<open>
  A positive real \<open>a\<close> lies in the binade of exponent \<open>\<lfloor>log 2 a\<rfloor>\<close>, not below
  \<open>-1022\<close> where the subnormal numbers begin. The binary64 values of that binade are
  the multiples of \<open>ulp64 a\<close>, which is \<open>2\<close> to that exponent less 52; \<open>mag64 a\<close>
  is the nearest multiple, the even one of two. A magnitude that rounds to \<open>2^1024\<close>
  or more overflows.
\<close>

definition exponent64 :: "real \<Rightarrow> int" where
  "exponent64 a = max \<lfloor>log 2 a\<rfloor> (- 1022)"

definition roundHalfEven :: "real \<Rightarrow> int" where
  "roundHalfEven t =
     (let f = \<lfloor>t\<rfloor>; d = t - of_int f
      in if d < 1 / 2 then f else if 1 / 2 < d then f + 1 else if even f then f else f + 1)"

definition ulp64 :: "real \<Rightarrow> real" where
  "ulp64 a = 2 powr (of_int (exponent64 a) - 52)"

definition mag64 :: "real \<Rightarrow> real" where
  "mag64 a = of_int (roundHalfEven (a / ulp64 a)) * ulp64 a"

definition round64 :: "real \<Rightarrow> jsnum" where
  "round64 x =
     (if x = 0 then Num 0
      else if 2 powr 1024 \<le> mag64 \<bar>x\<bar> then (if 0 < x then PInf else NInf)
      else Num (if 0 < x then mag64 \<bar>x\<bar> else - mag64 \<bar>x\<bar>))"

subsection \<open>The operators\<close>

fun jsmul :: "jsnum \<Rightarrow> jsnum \<Rightarrow> jsnum" where
  "jsmul (Num x) (Num y) = round64 (x * y)"
| "jsmul NaN _ = NaN"
| "jsmul _ NaN = NaN"
| "jsmul PInf PInf = PInf"
| "jsmul PInf NInf = NInf"
| "jsmul NInf PInf = NInf"
| "jsmul NInf NInf = PInf"
| "jsmul PInf (Num y) = (if y = 0 then NaN else if 0 < y then PInf else NInf)"
| "jsmul NInf (Num y) = (if y = 0 then NaN else if 0 < y then NInf else PInf)"
| "jsmul (Num x) PInf = (if x = 0 then NaN else if 0 < x then PInf else NInf)"
| "jsmul (Num x) NInf = (if x = 0 then NaN else if 0 < x then NInf else PInf)"

fun jsadd :: "jsnum \<Rightarrow> jsnum \<Rightarrow> jsnum" where
  "jsadd (Num x) (Num y) = round64 (x + y)"
| "jsadd NaN _ = NaN"
| "jsadd _ NaN = NaN"
| "jsadd PInf NInf = NaN"
| "jsadd NInf PInf = NaN"
| "jsadd PInf _ = PInf"
| "jsadd NInf _ = NInf"
| "jsadd _ PInf = PInf"
| "jsadd _ NInf = NInf"

fun jssub :: "jsnum \<Rightarrow> jsnum \<Rightarrow> jsnum" where
  "jssub (Num x) (Num y) = round64 (x - y)"
| "jssub NaN _ = NaN"
| "jssub _ NaN = NaN"
| "jssub PInf PInf = NaN"
| "jssub NInf NInf = NaN"
| "jssub PInf _ = PInf"
| "jssub NInf _ = NInf"
| "jssub _ PInf = NInf"
| "jssub _ NInf = PInf"

text \<open>Division by a finite zero takes the zero as positive (the model has one zero).\<close>

fun jsdiv :: "jsnum \<Rightarrow> jsnum \<Rightarrow> jsnum" where
  "jsdiv (Num x) (Num y) =
     (if y = 0 then (if x = 0 then NaN else if 0 < x then PInf else NInf)
      else round64 (x / y))"
| "jsdiv NaN _ = NaN"
| "jsdiv _ NaN = NaN"
| "jsdiv (Num x) PInf = Num 0"
| "jsdiv (Num x) NInf = Num 0"
| "jsdiv PInf (Num y) = (if 0 \<le> y then PInf else NInf)"
| "jsdiv NInf (Num y) = (if 0 \<le> y then NInf else PInf)"
| "jsdiv PInf _ = NaN"
| "jsdiv NInf _ = NaN"

text \<open>
  \<^verbatim>\<open>Math.sqrt\<close>: \<open>NaN\<close> on a negative argument (HOL's \<open>sqrt\<close> is odd instead),
  the rounded root otherwise.
\<close>

fun jssqrt :: "jsnum \<Rightarrow> jsnum" where
  "jssqrt (Num x) = (if x < 0 then NaN else round64 (sqrt x))"
| "jssqrt PInf = PInf"
| "jssqrt _ = NaN"

text \<open>
  \<^verbatim>\<open>Math.sin\<close>, \<^verbatim>\<open>Math.cos\<close> and \<^verbatim>\<open>Math.tan\<close> are fixed by ECMA-262 on \<open>NaN\<close>
  and the infinities only; on a finite argument each returns an approximation that the
  implementation chooses. The three functions on finite arguments are therefore a
  parameter \<open>lib\<close> of the trigonometric solver, and every general theorem holds for
  each library.
\<close>

record MathLib =
  lib_sin :: "real \<Rightarrow> jsnum"
  lib_cos :: "real \<Rightarrow> jsnum"
  lib_tan :: "real \<Rightarrow> jsnum"

fun jssin :: "MathLib \<Rightarrow> jsnum \<Rightarrow> jsnum" where
  "jssin lib (Num x) = lib_sin lib x"
| "jssin lib _ = NaN"

fun jscos :: "MathLib \<Rightarrow> jsnum \<Rightarrow> jsnum" where
  "jscos lib (Num x) = lib_cos lib x"
| "jscos lib _ = NaN"

fun jstan :: "MathLib \<Rightarrow> jsnum \<Rightarrow> jsnum" where
  "jstan lib (Num x) = lib_tan lib x"
| "jstan lib _ = NaN"

text \<open>The comparisons \<^verbatim>\<open><=\<close> and \<^verbatim>\<open>>=\<close>: false as soon as one side is \<open>NaN\<close>.\<close>

fun jsle :: "jsnum \<Rightarrow> jsnum \<Rightarrow> bool" where
  "jsle (Num x) (Num y) = (x \<le> y)"
| "jsle NaN _ = False"
| "jsle _ NaN = False"
| "jsle NInf _ = True"
| "jsle _ PInf = True"
| "jsle PInf _ = False"
| "jsle _ NInf = False"

definition jsge :: "jsnum \<Rightarrow> jsnum \<Rightarrow> bool" where
  "jsge x y = jsle y x"

text \<open>\<^verbatim>\<open>Math.PI\<close> is the binary64 value nearest to \<open>pi\<close>, 3.141592653589793.\<close>

definition Math_PI :: jsnum where
  "Math_PI = Num (884279719003555 / 2 ^ 48)"

section \<open>Numbers as text\<close>

text \<open>
  Strings are byte lists; the Spanish labels of the source are written in UTF-8, and
  \<open>bs\<close> is the backslash of the LaTeX fragments.
\<close>

definition bs :: string where
  "bs = [CHR 0x5C]"

definition digitChar :: "nat \<Rightarrow> char" where
  "digitChar d = ''0123456789'' ! d"

fun digitsOf :: "nat \<Rightarrow> string" where
  "digitsOf n = (if n < 10 then [digitChar n] else digitsOf (n div 10) @ [digitChar (n mod 10)])"

declare digitsOf.simps [simp del]

text \<open>
  The template literals of the source interpolate numbers with \<^verbatim>\<open>Number::toString\<close>.
  Its text for the special values is fixed; its digits for a finite number are the
  shortest ones that read back as the same binary64 value, which exact arithmetic does
  not determine. The conversion of finite numbers is therefore a parameter \<open>fin\<close> of
  the solvers, and every general theorem holds for each \<open>fin\<close>.
\<close>

fun numToString :: "(real \<Rightarrow> string) \<Rightarrow> jsnum \<Rightarrow> string" where
  "numToString fin NaN = ''NaN''"
| "numToString fin PInf = ''Infinity''"
| "numToString fin NInf = ''-Infinity''"
| "numToString fin (Num r) = fin r"

text \<open>
  \<^verbatim>\<open>Number.prototype.toFixed(f)\<close> (ECMA-262, 21.1.3.3): a non-finite number is
  converted by \<^verbatim>\<open>Number::toString\<close>; so is a magnitude from \<open>10^21\<close> on, behind its
  sign; below that, \<open>n\<close> is the integer nearest to the magnitude times \<open>10^f\<close> (the
  larger one of two), written with at least \<open>f + 1\<close> digits and a point before the
  last \<open>f\<close>.
\<close>

definition fixedDigits :: "nat \<Rightarrow> nat \<Rightarrow> string" where
  "fixedDigits f n =
     (let m = digitsOf n;
          m' = replicate (f + 1 - length m) (CHR ''0'') @ m;
          k = length m'
      in if f = 0 then m else take (k - f) m' @ ''.'' @ drop (k - f) m')"

definition toFixed :: "(real \<Rightarrow> string) \<Rightarrow> nat \<Rightarrow> jsnum \<Rightarrow> string" where
  "toFixed fin f x =
     (case x of
        Num r \<Rightarrow>
          (let s = (if r < 0 then ''-'' else '''');
               y = \<bar>r\<bar>
           in if 10 ^ 21 \<le> y then s @ numToString fin (Num y)
              else s @ fixedDigits f (nat \<lfloor>y * 10 ^ f + 1 / 2\<rfloor>))
      | _ \<Rightarrow> numToString fin x)"

text \<open>
  An instance of the parameter for closed examples: \<^verbatim>\<open>Number::toString\<close> on an
  integer-valued finite number (ECMA-262, 6.1.6.1.20, with exact arithmetic): a sign,
  then the decimal digits when there are at most 21 of them, and otherwise the
  significant digits in exponent form. On a number that is not an integer it gives the
  empty string; no example below converts such a number.
\<close>

definition stripZeros :: "string \<Rightarrow> string" where
  "stripZeros ds = rev (dropWhile (\<lambda>ch. ch = CHR ''0'') (rev ds))"

definition integerString :: "real \<Rightarrow> string" where
  "integerString r =
     (if r \<noteq> of_int \<lfloor>r\<rfloor> then []
      else
        let ds = digitsOf (nat \<lfloor>\<bar>r\<bar>\<rfloor>);
            n = length ds;
            s = stripZeros ds
        in (if r < 0 then ''-'' else '''') @
           (if n \<le> 21 then ds
            else (if length s = 1 then s else take 1 s @ ''.'' @ drop 1 s)
                 @ ''e+'' @ digitsOf (n - 1)))"

text \<open>
  A string is in fixed notation with \<open>f\<close> decimals when it is an optional minus sign,
  at least one digit, a point and exactly \<open>f\<close> digits.
\<close>

definition isDigit :: "char \<Rightarrow> bool" where
  "isDigit ch = (ch \<in> set ''0123456789'')"

definition dropSign :: "string \<Rightarrow> string" where
  "dropSign s = (case s of [] \<Rightarrow> [] | ch # cs \<Rightarrow> if ch = CHR ''-'' then cs else s)"

definition fixedNotation :: "nat \<Rightarrow> string \<Rightarrow> bool" where
  "fixedNotation f s =
     (let body = dropSign s;
          ip = takeWhile isDigit body;
          rest = dropWhile isDigit body
      in ip \<noteq> [] \<and>
         (case rest of
            [] \<Rightarrow> False
          | ch # fp \<Rightarrow> ch = CHR ''.'' \<and> length fp = f \<and> list_all isDigit fp))"

section \<open>The two solvers\<close>

record CalculationStep =
  step_text :: string
  step_math :: "string option"

record PythResult =
  val :: jsnum
  steps :: "CalculationStep list"

record TrigResult =
  side_a :: jsnum
  side_b :: jsnum
  side_c :: jsnum
  sin_r :: jsnum
  cos_r :: jsnum
  tan_r :: jsnum
  trig_steps :: "CalculationStep list"

datatype Side = Side_a | Side_b | Side_c

text \<open>
  What one call does: nothing (a bare \<^verbatim>\<open>return\<close>, or no branch taken), an
  \<^verbatim>\<open>alert\<close> with its message and no new result, or a new result handed to the
  state setter.
\<close>

datatype 'r outcome = NoOp | Alert string | SetResult 'r

definition step :: "string \<Rightarrow> string \<Rightarrow> CalculationStep" where
  "step t m = \<lparr>step_text = t, step_math = Some m\<rparr>"

definition formula_label :: string where
  "formula_label = ''Usamos la f'' @ [CHR 0xC3, CHR 0xB3] @ ''rmula:''"

definition hypotenuse_alert :: string where
  "hypotenuse_alert = ''La hipotenusa debe ser mayor que el cateto.''"

text \<open>
  \<^verbatim>\<open>calculatePythagoras\<close>, on the three values that \<^verbatim>\<open>parseFloat\<close> gave for the
  three input fields (\<open>NaN\<close> for a blank field).
\<close>

definition calculatePythagoras ::
  "(real \<Rightarrow> string) \<Rightarrow> jsnum \<Rightarrow> jsnum \<Rightarrow> jsnum \<Rightarrow> PythResult outcome" where
  "calculatePythagoras fin a b c =
     (if \<not> isNaN a \<and> \<not> isNaN b then
        (let result = jssqrt (jsadd (jsmul a a) (jsmul b b))
         in SetResult \<lparr>val = result, steps =
              [step ''Identificamos los catetos:''
                 (''a = '' @ numToString fin a @ '', b = '' @ numToString fin b),
               step formula_label (''c = '' @ bs @ ''sqrt{a^2 + b^2}''),
               step ''Sustituimos valores:''
                 (''c = '' @ bs @ ''sqrt{'' @ numToString fin a @ ''^2 + ''
                    @ numToString fin b @ ''^2}''),
               step ''Calculamos cuadrados:''
                 (''c = '' @ bs @ ''sqrt{'' @ toFixed fin 2 (jsmul a a) @ '' + ''
                    @ toFixed fin 2 (jsmul b b) @ ''}''),
               step ''Sumamos:''
                 (''c = '' @ bs @ ''sqrt{''
                    @ toFixed fin 2 (jsadd (jsmul a a) (jsmul b b)) @ ''}''),
               step ''Resultado final:''
                 (''c '' @ bs @ ''approx '' @ toFixed fin 4 result)]\<rparr>)
      else if \<not> isNaN a \<and> \<not> isNaN c then
        (if jsle c a then Alert hypotenuse_alert
         else
           (let result = jssqrt (jssub (jsmul c c) (jsmul a a))
            in SetResult \<lparr>val = result, steps =
                 [step ''Identificamos los lados:''
                    (''a = '' @ numToString fin a @ '', c = '' @ numToString fin c),
                  step (''Despejamos b de la f'' @ [CHR 0xC3, CHR 0xB3] @ ''rmula:'')
                    (''b = '' @ bs @ ''sqrt{c^2 - a^2}''),
                  step ''Sustituimos valores:''
                    (''b = '' @ bs @ ''sqrt{'' @ numToString fin c @ ''^2 - ''
                       @ numToString fin a @ ''^2}''),
                  step ''Resultado final:''
                    (''b '' @ bs @ ''approx '' @ toFixed fin 4 result)]\<rparr>))
      else if \<not> isNaN b \<and> \<not> isNaN c then
        (if jsle c b then Alert hypotenuse_alert
         else
           (let result = jssqrt (jssub (jsmul c c) (jsmul b b))
            in SetResult \<lparr>val = result, steps =
                 [step ''Identificamos los lados:''
                    (''b = '' @ numToString fin b @ '', c = '' @ numToString fin c),
                  step (''Despejamos a de la f'' @ [CHR 0xC3, CHR 0xB3] @ ''rmula:'')
                    (''a = '' @ bs @ ''sqrt{c^2 - b^2}''),
                  step ''Sustituimos valores:''
                    (''a = '' @ bs @ ''sqrt{'' @ numToString fin c @ ''^2 - ''
                       @ numToString fin b @ ''^2}''),
                  step ''Resultado final:''
                    (''a '' @ bs @ ''approx '' @ toFixed fin 4 result)]\<rparr>))
      else NoOp)"

definition angle_alert :: string where
  "angle_alert = ''El '' @ [CHR 0xC3, CHR 0xA1] @ ''ngulo debe estar entre 0''
     @ [CHR 0xC2, CHR 0xB0] @ '' y 90'' @ [CHR 0xC2, CHR 0xB0] @ ''.''"

definition angle_word :: string where
  "angle_word = [CHR 0xC3, CHR 0xA1] @ ''ngulo ('' @ [CHR 0xCE, CHR 0xB1] @ ''):''"

definition alpha_eq :: "(real \<Rightarrow> string) \<Rightarrow> jsnum \<Rightarrow> string" where
  "alpha_eq fin angleDeg =
     '', '' @ bs @ ''alpha = '' @ numToString fin angleDeg @ ''^'' @ bs @ ''circ''"

definition of_angle :: "(real \<Rightarrow> string) \<Rightarrow> string \<Rightarrow> jsnum \<Rightarrow> string" where
  "of_angle fin f angleDeg =
     bs @ f @ ''('' @ numToString fin angleDeg @ ''^'' @ bs @ ''circ) '' @ bs @ ''approx ''"

text \<open>
  \<^verbatim>\<open>calculateTrig\<close>, on the parsed angle, the selected side and the parsed side
  value. The last branch of the source is a plain \<^verbatim>\<open>else\<close>: it is the adjacent leg,
  the one remaining value of the type \<^verbatim>\<open>Side\<close>.
\<close>

definition calculateTrig ::
  "(real \<Rightarrow> string) \<Rightarrow> MathLib \<Rightarrow> jsnum \<Rightarrow> Side \<Rightarrow> jsnum \<Rightarrow> TrigResult outcome" where
  "calculateTrig fin lib angleDeg trigSideType sideVal =
     (if isNaN angleDeg \<or> isNaN sideVal then NoOp
      else if jsle angleDeg (Num 0) \<or> jsge angleDeg (Num 90) then Alert angle_alert
      else
        (let angleRad = jsdiv (jsmul angleDeg Math_PI) (Num 180)
         in if trigSideType = Side_c then
              (let c = sideVal;
                   a = jsmul c (jssin lib angleRad);
                   b = jsmul c (jscos lib angleRad)
               in SetResult \<lparr>side_a = a, side_b = b, side_c = c,
                    sin_r = jssin lib angleRad, cos_r = jscos lib angleRad, tan_r = jstan lib angleRad,
                    trig_steps =
                      [step (''Dado Hipotenusa (c) y '' @ angle_word)
                         (''c = '' @ numToString fin c @ alpha_eq fin angleDeg),
                       step ''Calculamos cateto opuesto (a):''
                         (''a = c '' @ bs @ ''cdot '' @ bs @ ''sin('' @ bs @ ''alpha) = ''
                            @ numToString fin c @ '' '' @ bs @ ''cdot ''
                            @ of_angle fin ''sin'' angleDeg @ toFixed fin 4 a),
                       step ''Calculamos cateto adyacente (b):''
                         (''b = c '' @ bs @ ''cdot '' @ bs @ ''cos('' @ bs @ ''alpha) = ''
                            @ numToString fin c @ '' '' @ bs @ ''cdot ''
                            @ of_angle fin ''cos'' angleDeg @ toFixed fin 4 b)]\<rparr>)
            else if trigSideType = Side_a then
              (let a = sideVal;
                   c = jsdiv a (jssin lib angleRad);
                   b = jsdiv a (jstan lib angleRad)
               in SetResult \<lparr>side_a = a, side_b = b, side_c = c,
                    sin_r = jssin lib angleRad, cos_r = jscos lib angleRad, tan_r = jstan lib angleRad,
                    trig_steps =
                      [step (''Dado Cateto Opuesto (a) y '' @ angle_word)
                         (''a = '' @ numToString fin a @ alpha_eq fin angleDeg),
                       step ''Calculamos hipotenusa (c):''
                         (''c = a / '' @ bs @ ''sin('' @ bs @ ''alpha) = ''
                            @ numToString fin a @ '' / ''
                            @ of_angle fin ''sin'' angleDeg @ toFixed fin 4 c),
                       step ''Calculamos cateto adyacente (b):''
                         (''b = a / '' @ bs @ ''tan('' @ bs @ ''alpha) = ''
                            @ numToString fin a @ '' / ''
                            @ of_angle fin ''tan'' angleDeg @ toFixed fin 4 b)]\<rparr>)
            else
              (let b = sideVal;
                   c = jsdiv b (jscos lib angleRad);
                   a = jsmul b (jstan lib angleRad)
               in SetResult \<lparr>side_a = a, side_b = b, side_c = c,
                    sin_r = jssin lib angleRad, cos_r = jscos lib angleRad, tan_r = jstan lib angleRad,
                    trig_steps =
                      [step (''Dado Cateto Adyacente (b) y '' @ angle_word)
                         (''b = '' @ numToString fin b @ alpha_eq fin angleDeg),
                       step ''Calculamos hipotenusa (c):''
                         (''c = b / '' @ bs @ ''cos('' @ bs @ ''alpha) = ''
                            @ numToString fin b @ '' / ''
                            @ of_angle fin ''cos'' angleDeg @ toFixed fin 4 c),
                       step ''Calculamos cateto opuesto (a):''
                         (''a = b '' @ bs @ ''cdot '' @ bs @ ''tan('' @ bs @ ''alpha) = ''
                            @ numToString fin b @ '' '' @ bs @ ''cdot ''
                            @ of_angle fin ''tan'' angleDeg @ toFixed fin 4 a)]\<rparr>)))"

section \<open>Reading an outcome\<close>

fun produced :: "'r outcome \<Rightarrow> 'r option" where
  "produced (SetResult r) = Some r"
| "produced _ = None"

text \<open>A value is present when \<^verbatim>\<open>isNaN\<close> is false of it, as the source tests it.\<close>

definition present :: "jsnum \<Rightarrow> nat" where
  "present x = (if isNaN x then 0 else 1)"

definition count_present :: "jsnum \<Rightarrow> jsnum \<Rightarrow> jsnum \<Rightarrow> nat" where
  "count_present a b c = present a + present b + present c"

text \<open>
  The four formulas of a leg-and-hypotenuse derivation, for the known leg \<open>known\<close>
  with value \<open>l\<close> and the unknown leg \<open>unknown\<close>: the known sides, the rearranged
  formula, the substitution, the result to four decimals.
\<close>

definition leg_hyp_steps ::
  "(real \<Rightarrow> string) \<Rightarrow> string \<Rightarrow> string \<Rightarrow> jsnum \<Rightarrow> jsnum \<Rightarrow> string option list" where
  "leg_hyp_steps fin known unknown l c =
     [Some (known @ '' = '' @ numToString fin l @ '', c = '' @ numToString fin c),
      Some (unknown @ '' = '' @ bs @ ''sqrt{c^2 - '' @ known @ ''^2}''),
      Some (unknown @ '' = '' @ bs @ ''sqrt{'' @ numToString fin c @ ''^2 - ''
              @ numToString fin l @ ''^2}''),
      Some (unknown @ '' '' @ bs @ ''approx ''
              @ toFixed fin 4 (jssqrt (jssub (jsmul c c) (jsmul l l))))]"

text \<open>
  A number as the page shows it: \<^verbatim>\<open>toFixed(4)\<close> of a field of the result, and the
  formula of the \<open>i\<close>-th step (counted from 0) of a derivation.
\<close>

definition shown :: "(real \<Rightarrow> string) \<Rightarrow> ('r \<Rightarrow> jsnum) \<Rightarrow> 'r outcome \<Rightarrow> string option" where
  "shown fin field out = map_option (\<lambda>r. toFixed fin 4 (field r)) (produced out)"

fun math_at :: "nat \<Rightarrow> PythResult outcome \<Rightarrow> string option" where
  "math_at i (SetResult r) = (if i < length (steps r) then step_math (steps r ! i) else None)"
| "math_at i _ = None"

text \<open>The value that a string in fixed notation denotes.\<close>

definition digitVal :: "char \<Rightarrow> nat" where
  "digitVal ch = of_char ch - 48"

definition digitsValue :: "string \<Rightarrow> nat" where
  "digitsValue ds = foldl (\<lambda>acc ch. 10 * acc + digitVal ch) 0 ds"

definition fixedValue :: "string \<Rightarrow> real" where
  "fixedValue s =
     (let body = dropSign s;
          ip = takeWhile isDigit body;
          fp = drop 1 (dropWhile isDigit body);
          magnitude = real (digitsValue ip) + real (digitsValue fp) / 10 ^ length fp
      in if body = s then magnitude else - magnitude)"

text \<open>
  The six steps of a leg-and-leg derivation as the specification lists them: the known
  legs, the formula, the substitution, the two squares to two decimals, their sum to
  two decimals, the result to four decimals.
\<close>

definition leg_leg_labels :: "string list" where
  "leg_leg_labels =
     [''Identificamos los catetos:'', formula_label, ''Sustituimos valores:'',
      ''Calculamos cuadrados:'', ''Sumamos:'', ''Resultado final:'']"

definition leg_leg_steps :: "(real \<Rightarrow> string) \<Rightarrow> jsnum \<Rightarrow> jsnum \<Rightarrow> string option list" where
  "leg_leg_steps fin a b =
     [Some (''a = '' @ numToString fin a @ '', b = '' @ numToString fin b),
      Some (''c = '' @ bs @ ''sqrt{a^2 + b^2}''),
      Some (''c = '' @ bs @ ''sqrt{'' @ numToString fin a @ ''^2 + ''
              @ numToString fin b @ ''^2}''),
      Some (''c = '' @ bs @ ''sqrt{'' @ toFixed fin 2 (jsmul a a) @ '' + ''
              @ toFixed fin 2 (jsmul b b) @ ''}''),
      Some (''c = '' @ bs @ ''sqrt{'' @ toFixed fin 2 (jsadd (jsmul a a) (jsmul b b)) @ ''}''),
      Some (''c '' @ bs @ ''approx ''
              @ toFixed fin 4 (jssqrt (jsadd (jsmul a a) (jsmul b b))))]"

text \<open>
  A displayed number \<open>x\<close> is rendered to \<open>f\<close> decimals when its text is in fixed
  notation with \<open>f\<close> decimals and denotes the value nearest to \<open>x\<close>. The statement
  is made of the numbers \<^verbatim>\<open>toFixed\<close> renders so: the finite ones below \<open>10^21\<close>.
\<close>

definition rendered :: "(real \<Rightarrow> string) \<Rightarrow> nat \<Rightarrow> jsnum \<Rightarrow> bool" where
  "rendered fin f x =
     (case x of
        Num p \<Rightarrow>
          \<bar>p\<bar> < 10 ^ 21 \<longrightarrow>
            fixedNotation f (toFixed fin f x) \<and>
            \<bar>fixedValue (toFixed fin f x) - p\<bar> \<le> 1 / (2 * 10 ^ f)
      | _ \<Rightarrow> True)"

text \<open>
  Ranges of inputs. \<open>in_range x lo hi\<close>: \<open>x\<close> is a finite number between \<open>lo\<close> and
  \<open>hi\<close>. \<open>moderate x\<close>: a blank field, or a finite number of magnitude at most
  \<open>2^500\<close>. \<open>binary64 x\<close>: the real \<open>x\<close> is a binary64 value, as every number is
  that \<^verbatim>\<open>parseFloat\<close> returns. \<open>leg_within a b c\<close>: where exactly one leg and the
  hypotenuse are present, the square of the leg does not exceed the square of the
  hypotenuse.
\<close>

definition big :: real where
  "big = 2 powr 500"

definition small :: real where
  "small = 2 powr (- 500)"


fun moderate :: "jsnum \<Rightarrow> bool" where
  "moderate NaN = True"
| "moderate (Num x) = (\<bar>x\<bar> \<le> big)"
| "moderate _ = False"


fun leg_within :: "jsnum \<Rightarrow> jsnum \<Rightarrow> jsnum \<Rightarrow> bool" where
  "leg_within (Num x) NaN (Num z) = (x * x \<le> z * z)"
| "leg_within NaN (Num y) (Num z) = (y * y \<le> z * z)"
| "leg_within _ _ _ = True"

text \<open>
  The angle in radians as the solver computes it, and what the 30-degree example asks
  of the library: its sine, cosine and tangent of the computed angle are finite and
  within \<open>10^-7\<close> of the exact values for 30 degrees.
\<close>

definition angleRad_of :: "jsnum \<Rightarrow> jsnum" where
  "angleRad_of angleDeg = jsdiv (jsmul angleDeg Math_PI) (Num 180)"

fun near :: "jsnum \<Rightarrow> real \<Rightarrow> bool" where
  "near (Num s) t = (\<bar>s - t\<bar> \<le> 1 / 10 ^ 7)"
| "near _ t = False"

definition accurate_at_30 :: "MathLib \<Rightarrow> bool" where
  "accurate_at_30 lib =
     (near (jssin lib (angleRad_of (Num 30))) (1 / 2) \<and>
      near (jscos lib (angleRad_of (Num 30))) (sqrt 3 / 2) \<and>
      near (jstan lib (angleRad_of (Num 30))) (1 / sqrt 3))"

text \<open>
  A library for closed examples: it answers every argument with the binary64 values
  that a correctly rounding library gives at 30 degrees, 0.49999999999999994 for the
  sine, 0.8660254037844387 for the cosine and 0.5773502691896257 for the tangent.
\<close>

definition sampleLib :: MathLib where
  "sampleLib =
     \<lparr>lib_sin = (\<lambda>x. Num (9007199254740991 / 2 ^ 54)),
      lib_cos = (\<lambda>x. Num (7800463371553963 / 2 ^ 53)),
      lib_tan = (\<lambda>x. Num (1300077228592327 / 2 ^ 51))\<rparr>"


fun magnitude_in :: "jsnum \<Rightarrow> real \<Rightarrow> real \<Rightarrow> bool" where
  "magnitude_in (Num s) lo hi = (lo \<le> \<bar>s\<bar> \<and> \<bar>s\<bar> \<le> hi)"
| "magnitude_in _ lo hi = False"

section \<open>Facts about rounding\<close>

lemma rhe_cases: "roundHalfEven t = \<lfloor>t\<rfloor> \<or> roundHalfEven t = \<lfloor>t\<rfloor> + 1"
  by (simp add: roundHalfEven_def Let_def)

lemma rhe_int [simp]: "roundHalfEven (of_int j) = j"
  by (simp add: roundHalfEven_def Let_def)

lemma rhe_close: "\<bar>of_int (roundHalfEven t) - t\<bar> \<le> 1 / 2"
proof -
  have "of_int \<lfloor>t\<rfloor> \<le> t" "t < of_int \<lfloor>t\<rfloor> + 1" by linarith+
  then show ?thesis by (auto simp: roundHalfEven_def Let_def)
qed

lemma rhe_mono:
  assumes "s \<le> t"
  shows "roundHalfEven s \<le> roundHalfEven t"
proof (cases "\<lfloor>s\<rfloor> = \<lfloor>t\<rfloor>")
  case True
  then show ?thesis using assms by (auto simp: roundHalfEven_def Let_def)
next
  case False
  then have "\<lfloor>s\<rfloor> + 1 \<le> \<lfloor>t\<rfloor>" using floor_mono [OF assms] by linarith
  moreover have "roundHalfEven s \<le> \<lfloor>s\<rfloor> + 1" using rhe_cases [of s] by linarith
  moreover have "\<lfloor>t\<rfloor> \<le> roundHalfEven t" using rhe_cases [of t] by linarith
  ultimately show ?thesis by linarith
qed

lemma rhe_ge: "of_int j \<le> t \<Longrightarrow> j \<le> roundHalfEven t"
  using rhe_mono [of "of_int j" t] by simp

lemma rhe_le: "t \<le> of_int j \<Longrightarrow> roundHalfEven t \<le> j"
  using rhe_mono [of t "of_int j"] by simp

lemma ulp64_pos: "0 < ulp64 a"
  by (simp add: ulp64_def)


lemma mag64_nonneg: "0 \<le> a \<Longrightarrow> 0 \<le> mag64 a"
  using rhe_ge [of 0 "a / ulp64 a"] ulp64_pos [of a] by (simp add: mag64_def)

lemma mag64_error_ulp: "\<bar>mag64 a - a\<bar> \<le> ulp64 a / 2"
proof -
  have "mag64 a - a = (of_int (roundHalfEven (a / ulp64 a)) - a / ulp64 a) * ulp64 a"
    using ulp64_pos [of a] by (simp add: mag64_def field_simps)
  then have "\<bar>mag64 a - a\<bar> = \<bar>of_int (roundHalfEven (a / ulp64 a)) - a / ulp64 a\<bar> * ulp64 a"
    using ulp64_pos [of a] by (simp add: abs_mult)
  also have "\<dots> \<le> 1 / 2 * ulp64 a"
    using rhe_close [of "a / ulp64 a"] ulp64_pos [of a] by (intro mult_right_mono) simp_all
  finally show ?thesis by simp
qed


lemma floor_log_bounds:
  assumes "0 < a"
  shows "2 powr of_int \<lfloor>log 2 a\<rfloor> \<le> a" and "a < 2 powr (of_int \<lfloor>log 2 a\<rfloor> + 1)"
  using floor_log_eq_powr_iff [of a 2 "\<lfloor>log 2 a\<rfloor>"] assms by simp_all

lemma exponent64_normal:
  assumes "2 powr (- 1022) \<le> a"
  shows "exponent64 a = \<lfloor>log 2 a\<rfloor>"
proof -
  have "0 < a" using assms powr_gt_zero [of 2 "- 1022"] by linarith
  then have "log 2 (2 powr (- 1022)) \<le> log 2 a" using assms by (intro log_mono) simp_all
  then have "- 1022 \<le> log 2 a" by simp
  then have "- 1022 \<le> \<lfloor>log 2 a\<rfloor>" by (simp add: le_floor_iff)
  then show ?thesis by (simp add: exponent64_def)
qed

lemma exponent64_subnormal:
  assumes "0 < a" and "a < 2 powr (- 1022)"
  shows "exponent64 a = - 1022"
proof -
  have "log 2 a < log 2 (2 powr (- 1022))" using assms by (intro log_less) simp_all
  then have "log 2 a < - 1022" by simp
  then have "\<lfloor>log 2 a\<rfloor> < - 1022" by (simp add: floor_less_iff)
  then show ?thesis by (simp add: exponent64_def)
qed

lemma below_next_binade:
  assumes "0 < a"
  shows "a < 2 powr (of_int (exponent64 a) + 1)"
proof -
  have "(of_int \<lfloor>log 2 a\<rfloor> + 1 :: real) \<le> of_int (exponent64 a) + 1"
    by (simp add: exponent64_def)
  then have "(2::real) powr (of_int \<lfloor>log 2 a\<rfloor> + 1) \<le> 2 powr (of_int (exponent64 a) + 1)"
    by (intro powr_mono) simp_all
  then show ?thesis using floor_log_bounds(2) [OF assms] by linarith
qed

lemma half_ulp_bound:
  assumes "0 < a"
  shows "ulp64 a / 2 \<le> 2 powr (- 53) * max a (2 powr (- 1022))"
proof (cases "2 powr (- 1022) \<le> a")
  case True
  have "ulp64 a / 2 = 2 powr (- 53) * 2 powr of_int \<lfloor>log 2 a\<rfloor>"
    unfolding ulp64_def exponent64_normal [OF True]
    by (simp add: powr_diff powr_minus field_simps)
  also have "\<dots> \<le> 2 powr (- 53) * a"
    using floor_log_bounds(1) [OF assms] by (intro mult_left_mono) simp_all
  also have "\<dots> \<le> 2 powr (- 53) * max a (2 powr (- 1022))"
    by (intro mult_left_mono) simp_all
  finally show ?thesis .
next
  case False
  then have e: "exponent64 a = - 1022" using assms by (intro exponent64_subnormal) simp_all
  have "ulp64 a / 2 = 2 powr (- 53) * 2 powr (- 1022)"
    unfolding ulp64_def e by (simp add: powr_diff powr_minus field_simps)
  also have "\<dots> \<le> 2 powr (- 53) * max a (2 powr (- 1022))"
    by (intro mult_left_mono) simp_all
  finally show ?thesis .
qed

lemma mag64_error:
  assumes "0 < a"
  shows "\<bar>mag64 a - a\<bar> \<le> 2 powr (- 53) * max a (2 powr (- 1022))"
  using mag64_error_ulp [of a] half_ulp_bound [OF assms] by linarith

lemma ulp64_scale:
  "2 ^ 53 * ulp64 a = 2 powr (of_int (exponent64 a) + 1)"
  "2 ^ 52 * ulp64 a = 2 powr of_int (exponent64 a)"
proof -
  have "(2::real) ^ 53 * ulp64 a = 2 powr 53 * 2 powr (of_int (exponent64 a) - 52)"
    by (simp add: ulp64_def)
  also have "\<dots> = 2 powr (53 + (of_int (exponent64 a) - 52))"
    by (rule powr_add [symmetric])
  also have "53 + (real_of_int (exponent64 a) - 52) = of_int (exponent64 a) + 1" by simp
  finally show "2 ^ 53 * ulp64 a = 2 powr (of_int (exponent64 a) + 1)" .
  have "(2::real) ^ 52 * ulp64 a = 2 powr 52 * 2 powr (of_int (exponent64 a) - 52)"
    by (simp add: ulp64_def)
  also have "\<dots> = 2 powr (52 + (of_int (exponent64 a) - 52))"
    by (rule powr_add [symmetric])
  also have "52 + (real_of_int (exponent64 a) - 52) = of_int (exponent64 a)" by simp
  finally show "2 ^ 52 * ulp64 a = 2 powr of_int (exponent64 a)" .
qed

lemma mag64_upper:
  assumes "0 < a"
  shows "mag64 a \<le> 2 powr (of_int (exponent64 a) + 1)"
proof -
  have "a < 2 ^ 53 * ulp64 a"
    using below_next_binade [OF assms] by (simp only: ulp64_scale)
  then have "a / ulp64 a \<le> 2 ^ 53"
    using ulp64_pos [of a] by (simp add: field_simps)
  also have "(2::real) ^ 53 = of_int (2 ^ 53)" by simp
  finally have "roundHalfEven (a / ulp64 a) \<le> 2 ^ 53" by (rule rhe_le)
  then have "(of_int (roundHalfEven (a / ulp64 a)) :: real) \<le> of_int (2 ^ 53)"
    by (simp only: of_int_le_iff)
  then have "mag64 a \<le> of_int (2 ^ 53) * ulp64 a"
    unfolding mag64_def using ulp64_pos [of a] by (intro mult_right_mono) simp_all
  also have "(of_int (2 ^ 53) :: real) = 2 ^ 53" by simp
  finally show ?thesis by (simp only: ulp64_scale)
qed

lemma mag64_lower:
  assumes "2 powr (- 1022) \<le> a"
  shows "2 powr of_int (exponent64 a) \<le> mag64 a"
proof -
  have pos: "0 < a" using assms powr_gt_zero [of 2 "- 1022"] by linarith
  have "2 powr of_int (exponent64 a) \<le> a"
    using floor_log_bounds(1) [OF pos] by (simp add: exponent64_normal [OF assms])
  then have "2 ^ 52 * ulp64 a \<le> a" by (simp only: ulp64_scale)
  then have "2 ^ 52 \<le> a / ulp64 a"
    using ulp64_pos [of a] by (simp add: field_simps)
  moreover have "(2::real) ^ 52 = of_int (2 ^ 52)" by simp
  ultimately have "of_int (2 ^ 52) \<le> a / ulp64 a" by simp
  then have "2 ^ 52 \<le> roundHalfEven (a / ulp64 a)" by (rule rhe_ge)
  then have "(of_int (2 ^ 52) :: real) \<le> of_int (roundHalfEven (a / ulp64 a))"
    by (simp only: of_int_le_iff)
  then have "of_int (2 ^ 52) * ulp64 a \<le> mag64 a"
    unfolding mag64_def using ulp64_pos [of a] by (intro mult_right_mono) simp_all
  moreover have "(of_int (2 ^ 52) :: real) = 2 ^ 52" by simp
  ultimately have "2 ^ 52 * ulp64 a \<le> mag64 a" by simp
  then show ?thesis by (simp only: ulp64_scale)
qed

lemma exponent64_mono:
  assumes "0 < a" and "a \<le> b"
  shows "exponent64 a \<le> exponent64 b"
proof -
  have "log 2 a \<le> log 2 b" using assms by (intro log_mono) simp_all
  then have "\<lfloor>log 2 a\<rfloor> \<le> \<lfloor>log 2 b\<rfloor>" by (rule floor_mono)
  then show ?thesis by (simp add: exponent64_def)
qed

lemma mag64_mono:
  assumes "0 < a" and "a \<le> b"
  shows "mag64 a \<le> mag64 b"
proof (cases "exponent64 a = exponent64 b")
  case True
  then have u: "ulp64 a = ulp64 b" by (simp add: ulp64_def)
  have "a / ulp64 b \<le> b / ulp64 b"
    using assms ulp64_pos [of b] by (simp add: divide_right_mono)
  then have "roundHalfEven (a / ulp64 b) \<le> roundHalfEven (b / ulp64 b)" by (rule rhe_mono)
  then have "(of_int (roundHalfEven (a / ulp64 b)) :: real) \<le> of_int (roundHalfEven (b / ulp64 b))"
    by (simp only: of_int_le_iff)
  then show ?thesis
    unfolding mag64_def u using ulp64_pos [of b] by (intro mult_right_mono) simp_all
next
  case False
  then have lt: "exponent64 a + 1 \<le> exponent64 b"
    using exponent64_mono [OF assms] by linarith
  then have "- 1022 < exponent64 b" by (simp add: exponent64_def)
  then have fl: "exponent64 b = \<lfloor>log 2 b\<rfloor>" by (simp add: exponent64_def max_def split: if_splits)
  have bpos: "0 < b" using assms by linarith
  have "- 1022 \<le> \<lfloor>log 2 b\<rfloor>" using fl \<open>- 1022 < exponent64 b\<close> by linarith
  then have "real_of_int (- 1022) \<le> of_int \<lfloor>log 2 b\<rfloor>" by (simp only: of_int_le_iff)
  then have "(2::real) powr (- 1022) \<le> 2 powr of_int \<lfloor>log 2 b\<rfloor>" by (intro powr_mono) simp_all
  then have normal: "2 powr (- 1022) \<le> b" using floor_log_bounds(1) [OF bpos] by linarith
  have "mag64 a \<le> 2 powr (of_int (exponent64 a) + 1)" by (rule mag64_upper [OF assms(1)])
  also have "\<dots> \<le> 2 powr of_int (exponent64 b)"
    using lt by (intro powr_mono) simp_all
  also have "\<dots> \<le> mag64 b" by (rule mag64_lower [OF normal])
  finally show ?thesis .
qed


lemma mag64_exact:
  assumes "0 < m" and "m < 2 ^ 53" and "- 1074 \<le> k" and "k \<le> 971"
    and a: "a = of_int m * 2 powr of_int k"
  shows "mag64 a = a" and "a < 2 powr 1024"
proof -
  have pos: "0 < a" using assms(1) by (simp add: a)
  have "real_of_int m < of_int (2 ^ 53)" using assms(2) by (simp only: of_int_less_iff)
  then have m53: "real_of_int m < 2 powr 53" by simp
  have "a < 2 powr 53 * 2 powr of_int k"
    unfolding a using m53 by (intro mult_strict_right_mono) simp_all
  also have "\<dots> = 2 powr (53 + of_int k)" by (rule powr_add [symmetric])
  finally have below: "a < 2 powr (53 + of_int k)" .
  have "2 powr (53 + real_of_int k) \<le> 2 powr 1024"
    using assms(4) by (intro powr_mono) simp_all
  with below show "a < 2 powr 1024" by linarith
  have "log 2 a < log 2 (2 powr (53 + of_int k))" using pos below by (intro log_less) simp_all
  then have "log 2 a < of_int (53 + k)" by simp
  then have "\<lfloor>log 2 a\<rfloor> < 53 + k" by (simp only: floor_less_iff)
  then have e: "exponent64 a \<le> k + 52" using assms(3) by (simp add: exponent64_def)
  define j where "j = nat (k + 52 - exponent64 a)"
  have j: "of_int k - (of_int (exponent64 a) - 52) = real j"
    using e by (simp add: j_def)
  have "a / ulp64 a = of_int m * (2 powr of_int k / 2 powr (of_int (exponent64 a) - 52))"
    by (simp add: a ulp64_def)
  also have "(2::real) powr of_int k / 2 powr (of_int (exponent64 a) - 52)
               = 2 powr (of_int k - (of_int (exponent64 a) - 52))"
    by (rule powr_diff [symmetric])
  also have "\<dots> = 2 ^ j" unfolding j by (simp add: powr_realpow)
  finally have "a / ulp64 a = of_int (m * 2 ^ j)" by simp
  then have "roundHalfEven (a / ulp64 a) = m * 2 ^ j" by (simp only: rhe_int)
  then have "mag64 a = of_int (m * 2 ^ j) * ulp64 a" by (simp only: mag64_def)
  also have "\<dots> = a / ulp64 a * ulp64 a"
    using \<open>a / ulp64 a = of_int (m * 2 ^ j)\<close> by simp
  also have "\<dots> = a" using ulp64_pos [of a] by simp
  finally show "mag64 a = a" .
qed

lemma round64_zero [simp]: "round64 0 = Num 0"
  by (simp add: round64_def)

lemma round64_exact:
  assumes "\<bar>m\<bar> < 2 ^ 53" and "- 1074 \<le> k" and "k \<le> 971"
  shows "round64 (of_int m * 2 powr of_int k) = Num (of_int m * 2 powr of_int k)"
proof (cases "m = 0")
  case True
  then show ?thesis by simp
next
  case False
  define x where "x = real_of_int m * 2 powr of_int k"
  have ax: "\<bar>x\<bar> = of_int \<bar>m\<bar> * 2 powr of_int k" by (simp add: x_def abs_mult)
  have m: "0 < \<bar>m\<bar>" using False by simp
  note ex = mag64_exact [OF m assms(1,2,3) ax]
  have nz: "x \<noteq> 0" using False by (simp add: x_def)
  have "round64 x = Num x"
    using ex nz by (simp add: round64_def not_le [symmetric] abs_if split: if_splits)
  then show ?thesis by (simp only: x_def)
qed

lemma round64_int: "\<bar>n\<bar> < 2 ^ 53 \<Longrightarrow> round64 (of_int n) = Num (of_int n)"
  using round64_exact [of n 0] by simp

lemma round64_numeral [simp]:
  "(numeral w :: int) < 2 ^ 53 \<Longrightarrow> round64 (numeral w) = Num (numeral w)"
  "(numeral w :: int) < 2 ^ 53 \<Longrightarrow> round64 (- numeral w) = Num (- numeral w)"
  "round64 1 = Num 1"
  using round64_int [of "numeral w"] round64_int [of "- numeral w"] round64_int [of 1]
  by simp_all

lemma round64_error:
  assumes "\<bar>x\<bar> \<le> 2 powr 1023"
  shows "\<exists>y. round64 x = Num y \<and> \<bar>y - x\<bar> \<le> 2 powr (- 53) * max \<bar>x\<bar> (2 powr (- 1022))
           \<and> (0 \<le> x \<longrightarrow> 0 \<le> y) \<and> (x \<le> 0 \<longrightarrow> y \<le> 0)"
proof (cases "x = 0")
  case True
  then show ?thesis by simp
next
  case False
  then have pos: "0 < \<bar>x\<bar>" by simp
  note err = mag64_error [OF pos]
  have "(2::real) powr (- 1022) \<le> 2 powr 1023" by (intro powr_mono) simp_all
  then have "max \<bar>x\<bar> (2 powr (- 1022)) \<le> 2 powr 1023"
    using assms by (rule_tac max.boundedI)
  then have "2 powr (- 53) * max \<bar>x\<bar> (2 powr (- 1022)) \<le> 2 powr (- 53) * 2 powr 1023"
    by (intro mult_left_mono) simp_all
  also have "\<dots> = 2 powr (- 53 + 1023)" by (rule powr_add [symmetric])
  also have "(- 53 + 1023 :: real) = 970" by simp
  finally have "mag64 \<bar>x\<bar> \<le> 2 powr 1023 + 2 powr 970" using err assms by linarith
  moreover have "(2::real) powr 1023 + 2 powr 970 < 2 powr 1024" by simp
  ultimately have fin: "\<not> 2 powr 1024 \<le> mag64 \<bar>x\<bar>" by linarith
  have nn: "0 \<le> mag64 \<bar>x\<bar>" by (rule mag64_nonneg) simp
  show ?thesis
  proof (cases "0 < x")
    case True
    then have "round64 x = Num (mag64 \<bar>x\<bar>)" using fin by (simp add: round64_def)
    then show ?thesis using err nn True by auto
  next
    case neg: False
    then have "round64 x = Num (- mag64 \<bar>x\<bar>)" using fin False by (simp add: round64_def)
    moreover have "\<bar>- mag64 \<bar>x\<bar> - x\<bar> = \<bar>mag64 \<bar>x\<bar> - \<bar>x\<bar>\<bar>" using neg by simp
    ultimately show ?thesis using err nn neg False by auto
  qed
qed

lemma round64_nonneg:
  assumes "0 \<le> x"
  shows "round64 x = PInf \<or> (\<exists>y. round64 x = Num y \<and> 0 \<le> y)"
  using assms mag64_nonneg [of "\<bar>x\<bar>"] by (auto simp: round64_def)

lemma round64_mono_nonneg:
  assumes "0 \<le> x" and "x \<le> y" and "round64 y = Num y'"
  shows "\<exists>x'. round64 x = Num x' \<and> 0 \<le> x' \<and> x' \<le> y'"
proof (cases "x = 0")
  case True
  have "0 \<le> y'" using round64_nonneg [of y] assms by auto
  then show ?thesis using True by simp
next
  case False
  then have x: "0 < x" and y: "0 < y" using assms by linarith+
  have yy: "y' = mag64 y" "\<not> 2 powr 1024 \<le> mag64 y"
    using assms(3) y by (auto simp: round64_def split: if_splits)
  have le: "mag64 x \<le> mag64 y" by (rule mag64_mono [OF x assms(2)])
  then have "round64 x = Num (mag64 x)" using x yy by (simp add: round64_def)
  then show ?thesis using le yy mag64_nonneg [of x] x by simp
qed


lemma round64_overflow:
  assumes "2 powr 1024 \<le> x"
  shows "round64 x = PInf"
proof -
  have pos: "0 < x" using assms powr_gt_zero [of 2 1024] by linarith
  have "(2::real) powr (- 1022) \<le> 2 powr 1024" by (intro powr_mono) simp_all
  then have normal: "2 powr (- 1022) \<le> x" using assms by linarith
  have c: "log 2 (2 powr 1024) = (1024::real)" by (rule log_powr_cancel) simp_all
  have "log 2 (2 powr 1024) \<le> log 2 x" using assms pos by (intro log_mono) simp_all
  then have "(1024::real) \<le> log 2 x" unfolding c .
  then have "real_of_int 1024 \<le> log 2 x" by simp
  then have "1024 \<le> \<lfloor>log 2 x\<rfloor>" by (simp only: le_floor_iff)
  then have "1024 \<le> exponent64 x" by (simp add: exponent64_def)
  then have "real_of_int 1024 \<le> of_int (exponent64 x)" by (simp only: of_int_le_iff)
  then have "(2::real) powr 1024 \<le> 2 powr of_int (exponent64 x)"
    by (intro powr_mono) simp_all
  then have "2 powr 1024 \<le> mag64 x" using mag64_lower [OF normal] by linarith
  then show ?thesis using pos by (simp add: round64_def)
qed

lemmas eval_text = toFixed_def fixedDigits_def Let_def digitsOf.simps digitChar_def

section \<open>Facts about digits and fixed notation\<close>

lemma digit_cases: "d < 10 \<Longrightarrow> d \<in> {0, 1, 2, 3, 4, 5, 6, 7, 8, 9::nat}"
  by auto

lemma digitChar_props:
  assumes "d < 10"
  shows "isDigit (digitChar d)" and "digitVal (digitChar d) = d" and "digitChar d \<noteq> CHR ''-''"
  using digit_cases [OF assms]
  by (auto simp: digitChar_def isDigit_def digitVal_def)

lemma digitsOf_nonempty: "digitsOf n \<noteq> []"
  by (subst digitsOf.simps) simp

lemma digitsOf_digits: "list_all isDigit (digitsOf n)"
proof (induction n rule: digitsOf.induct)
  case (1 n)
  show ?case
  proof (cases "n < 10")
    case True
    then show ?thesis by (subst digitsOf.simps) (simp add: digitChar_props)
  next
    case False
    then show ?thesis using 1 by (subst digitsOf.simps) (simp add: digitChar_props)
  qed
qed

lemma digitsValue_snoc: "digitsValue (ds @ [ch]) = 10 * digitsValue ds + digitVal ch"
  by (simp add: digitsValue_def)

lemma digitsValue_digitsOf: "digitsValue (digitsOf n) = n"
proof (induction n rule: digitsOf.induct)
  case (1 n)
  show ?case
  proof (cases "n < 10")
    case True
    then show ?thesis by (subst digitsOf.simps) (simp add: digitChar_props digitsValue_def)
  next
    case False
    then show ?thesis using 1
      by (subst digitsOf.simps) (simp add: digitsValue_snoc digitChar_props)
  qed
qed

lemma digitsValue_append:
  "digitsValue (xs @ ys) = digitsValue xs * 10 ^ length ys + digitsValue ys"
proof (induction ys rule: rev_induct)
  case Nil
  show ?case by (simp add: digitsValue_def)
next
  case (snoc y ys)
  have "digitsValue (xs @ ys @ [y]) = 10 * digitsValue (xs @ ys) + digitVal y"
    using digitsValue_snoc [of "xs @ ys" y] by simp
  then show ?case using snoc by (simp add: digitsValue_snoc algebra_simps)
qed

lemma digitsValue_zeros: "digitsValue (replicate k (CHR ''0'') @ ds) = digitsValue ds"
proof -
  have "digitsValue (replicate k (CHR ''0'')) = 0"
  proof (induction k)
    case 0
    show ?case by (simp add: digitsValue_def)
  next
    case (Suc k)
    have "replicate (Suc k) (CHR ''0'') = replicate k (CHR ''0'') @ [CHR ''0'']"
      by (simp add: replicate_append_same)
    then show ?case using Suc by (simp only: digitsValue_snoc) (simp add: digitVal_def)
  qed
  then show ?thesis by (simp add: digitsValue_append)
qed

text \<open>The digits of \<open>n\<close>, padded to more than \<open>f\<close> digits and cut before the last \<open>f\<close>.\<close>

lemma fixedDigits_split:
  assumes "0 < f"
  shows "\<exists>ip fp. fixedDigits f n = ip @ ''.'' @ fp \<and> ip \<noteq> [] \<and> length fp = f \<and>
           list_all isDigit ip \<and> list_all isDigit fp \<and>
           digitsValue ip * 10 ^ f + digitsValue fp = n"
proof -
  define m where "m = replicate (f + 1 - length (digitsOf n)) (CHR ''0'') @ digitsOf n"
  define ip where "ip = take (length m - f) m"
  define fp where "fp = drop (length m - f) m"
  have len: "f < length m" using digitsOf_nonempty [of n] by (cases "digitsOf n") (auto simp: m_def)
  have zero: "isDigit (CHR ''0'')" by (simp add: isDigit_def)
  have dig: "list_all isDigit m"
    using digitsOf_digits [of n] zero by (auto simp: m_def list_all_iff)
  have val: "digitsValue m = n" by (simp add: m_def digitsValue_zeros digitsValue_digitsOf)
  have 1: "fixedDigits f n = ip @ ''.'' @ fp"
    using assms by (simp add: fixedDigits_def Let_def m_def ip_def fp_def)
  have 2: "ip \<noteq> []" using len by (auto simp: ip_def)
  have 3: "length fp = f" using len by (simp add: fp_def)
  have 4: "list_all isDigit ip" "list_all isDigit fp"
    using dig by (auto simp: ip_def fp_def list_all_iff dest: in_set_takeD in_set_dropD)
  have "digitsValue (ip @ fp) = n" using val by (simp add: ip_def fp_def)
  then have 5: "digitsValue ip * 10 ^ f + digitsValue fp = n"
    using 3 by (simp add: digitsValue_append)
  show ?thesis using 1 2 3 4 5 by blast
qed

lemma not_digit: "\<not> isDigit (CHR ''.'')" "\<not> isDigit (CHR ''-'')"
  by (simp_all add: isDigit_def)

lemma fixed_text_props:
  assumes "s = [] \<or> s = ''-''" and "ip \<noteq> []" and "list_all isDigit ip"
    and "list_all isDigit fp"
  shows "fixedNotation (length fp) (s @ ip @ ''.'' @ fp)"
    and "fixedValue (s @ ip @ ''.'' @ fp)
           = (if s = [] then 1 else - 1) * (real (digitsValue ip) + real (digitsValue fp) / 10 ^ length fp)"
proof -
  obtain d ds where ip: "ip = d # ds" using assms(2) by (cases ip) auto
  have d: "isDigit d" "d \<noteq> CHR ''-''" using assms(3) not_digit by (auto simp: ip)
  have body: "dropSign (s @ ip @ CHR ''.'' # fp) = ip @ CHR ''.'' # fp"
    using assms(1) d by (auto simp: dropSign_def ip)
  have tw: "takeWhile isDigit (ip @ CHR ''.'' # fp) = ip"
    using assms(3) not_digit by (simp add: list_all_iff)
  have dw: "dropWhile isDigit (ip @ CHR ''.'' # fp) = CHR ''.'' # fp"
    using assms(3) not_digit by (simp add: list_all_iff)
  show "fixedNotation (length fp) (s @ ip @ ''.'' @ fp)"
    using assms(2,4) by (simp add: fixedNotation_def Let_def body tw dw)
  have "(ip @ CHR ''.'' # fp = s @ ip @ CHR ''.'' # fp) = (s = [])" by simp
  then show "fixedValue (s @ ip @ ''.'' @ fp)
           = (if s = [] then 1 else - 1) * (real (digitsValue ip) + real (digitsValue fp) / 10 ^ length fp)"
    by (simp add: fixedValue_def Let_def body tw dw)
qed

lemma toFixed_rounds:
  assumes "\<bar>r\<bar> < 10 ^ 21" and "0 < f"
  shows "fixedNotation f (toFixed fin f (Num r))"
    and "\<bar>fixedValue (toFixed fin f (Num r)) - r\<bar> \<le> 1 / (2 * 10 ^ f)"
proof -
  define n where "n = nat \<lfloor>\<bar>r\<bar> * 10 ^ f + 1 / 2\<rfloor>"
  define s :: string where "s = (if r < 0 then ''-'' else [])"
  obtain ip fp where sp: "fixedDigits f n = ip @ ''.'' @ fp" "ip \<noteq> []" "length fp = f"
    "list_all isDigit ip" "list_all isDigit fp" "digitsValue ip * 10 ^ f + digitsValue fp = n"
    using fixedDigits_split [OF assms(2), of n] by blast
  have tf: "toFixed fin f (Num r) = s @ ip @ ''.'' @ fp"
    using assms(1) sp(1) by (simp add: toFixed_def Let_def n_def s_def)
  have s: "s = [] \<or> s = ''-''" by (simp add: s_def)
  show "fixedNotation f (toFixed fin f (Num r))"
    using fixed_text_props(1) [OF s sp(2,4,5)] sp(3) tf by simp
  define p :: real where "p = 10 ^ f"
  have p: "0 < p" by (simp add: p_def)
  have "real (digitsValue ip * 10 ^ f + digitsValue fp) = real n"
    using sp(6) by simp
  then have "real (digitsValue ip) * p + real (digitsValue fp) = real n"
    by (simp add: p_def)
  then have mag: "real (digitsValue ip) + real (digitsValue fp) / 10 ^ f = real n / 10 ^ f"
    using p by (simp add: p_def [symmetric] field_simps)
  have nonneg: "0 \<le> \<bar>r\<bar> * p + 1 / 2" using p by simp
  have n_real: "real n = of_int \<lfloor>\<bar>r\<bar> * p + 1 / 2\<rfloor>"
    using nonneg by (simp add: n_def p_def)
  have "real n \<le> \<bar>r\<bar> * p + 1 / 2" and "\<bar>r\<bar> * p + 1 / 2 < real n + 1"
    unfolding n_real by linarith+
  then have half: "\<bar>real n - \<bar>r\<bar> * p\<bar> \<le> 1 / 2" by linarith
  have "real n / p - \<bar>r\<bar> = (real n - \<bar>r\<bar> * p) / p"
    using p by (simp add: diff_divide_distrib)
  then have "\<bar>real n / p - \<bar>r\<bar>\<bar> = \<bar>real n - \<bar>r\<bar> * p\<bar> / p"
    using p by (simp only: abs_divide abs_of_pos)
  also have "\<dots> \<le> (1 / 2) / p"
    by (rule divide_right_mono [OF half]) (use p in simp)
  finally have close: "\<bar>real n / p - \<bar>r\<bar>\<bar> \<le> 1 / (2 * p)" by simp
  have fv0: "fixedValue (s @ ip @ ''.'' @ fp)
      = (if s = [] then 1 else - 1) * (real (digitsValue ip) + real (digitsValue fp) / 10 ^ length fp)"
    by (rule fixed_text_props(2) [OF s sp(2,4,5)])
  have fv: "fixedValue (toFixed fin f (Num r)) = (if s = [] then 1 else - 1) * (real n / p)"
    unfolding tf fv0 sp(3) mag p_def ..
  show "\<bar>fixedValue (toFixed fin f (Num r)) - r\<bar> \<le> 1 / (2 * 10 ^ f)"
  proof (cases "r < 0")
    case True
    then have "s \<noteq> []" and "\<bar>r\<bar> = - r" by (simp_all add: s_def)
    then have "fixedValue (toFixed fin f (Num r)) - r = - (real n / p - \<bar>r\<bar>)"
      unfolding fv by simp
    then show ?thesis using close unfolding p_def by (simp only: abs_minus_cancel)
  next
    case False
    then have "s = []" and "\<bar>r\<bar> = r" by (simp_all add: s_def)
    then have "fixedValue (toFixed fin f (Num r)) - r = real n / p - \<bar>r\<bar>"
      unfolding fv by simp
    then show ?thesis using close unfolding p_def by (simp only:)
  qed
qed

lemma unit_roundoff: "(2::real) powr (- 53) \<le> 1 / 10 ^ 15"
  by (simp add: powr_minus_divide)


lemma abs_window: "\<bar>x - c\<bar> \<le> e \<Longrightarrow> c - e \<le> x \<and> x \<le> c + (e::real)"
  by linarith

lemma round64_small_error:
  assumes "\<bar>x\<bar> \<le> 16"
  shows "\<exists>y. round64 x = Num y \<and> \<bar>y - x\<bar> \<le> 1 / 10 ^ 13 \<and> (0 \<le> x \<longrightarrow> 0 \<le> y)"
proof -
  have "(16::real) = 2 powr 4" by simp
  also have "\<dots> \<le> 2 powr 1023" by (intro powr_mono) simp_all
  finally have "\<bar>x\<bar> \<le> 2 powr 1023" using assms by linarith
  from round64_error [OF this] obtain y where y: "round64 x = Num y"
    "\<bar>y - x\<bar> \<le> 2 powr (- 53) * max \<bar>x\<bar> (2 powr (- 1022))" "0 \<le> x \<longrightarrow> 0 \<le> y"
    by blast
  have "(2::real) powr (- 1022) \<le> 2 powr 4" by (intro powr_mono) simp_all
  then have "max \<bar>x\<bar> (2 powr (- 1022)) \<le> 16" using assms by simp
  then have "2 powr (- 53) * max \<bar>x\<bar> (2 powr (- 1022)) \<le> 2 powr (- 53) * 16"
    by (intro mult_left_mono) simp_all
  also have "\<dots> \<le> 1 / 10 ^ 15 * 16" using unit_roundoff by (intro mult_right_mono) simp_all
  also have "\<dots> \<le> 1 / 10 ^ 13" by simp
  finally show ?thesis using y by auto
qed

lemma round64_bounded:
  assumes "\<bar>x\<bar> \<le> m" and "1 \<le> m" and "m \<le> 2 powr 1023"
  shows "\<exists>y. round64 x = Num y \<and> \<bar>y\<bar> \<le> 2 * m \<and> (0 \<le> x \<longrightarrow> 0 \<le> y)"
proof -
  have "\<bar>x\<bar> \<le> 2 powr 1023" using assms by linarith
  from round64_error [OF this] obtain y where y: "round64 x = Num y"
    "\<bar>y - x\<bar> \<le> 2 powr (- 53) * max \<bar>x\<bar> (2 powr (- 1022))" "0 \<le> x \<longrightarrow> 0 \<le> y"
    by blast
  have "(2::real) powr (- 1022) \<le> 2 powr 0" by (intro powr_mono) simp_all
  then have "max \<bar>x\<bar> (2 powr (- 1022)) \<le> m" using assms by simp
  moreover have "(2::real) powr (- 53) \<le> 1" using unit_roundoff by simp
  ultimately have "2 powr (- 53) * max \<bar>x\<bar> (2 powr (- 1022)) \<le> 1 * m"
    by (intro mult_mono) simp_all
  then show ?thesis using y assms(1) by (intro exI [of _ y]) (simp add: abs_le_iff)
qed



lemma round64_ten_22: "round64 10000000000000000000000 = Num 10000000000000000000000"
proof -
  have "(10000000000000000000000 :: real) = of_int (5 ^ 22) * 2 powr of_int 22" by simp
  moreover have "round64 (of_int (5 ^ 22) * 2 powr of_int 22)
                   = Num (of_int (5 ^ 22) * 2 powr of_int 22)"
    by (rule round64_exact) simp_all
  ultimately show ?thesis by simp
qed

lemma small_big:
  "0 < small" "small \<le> 1" "1 \<le> big" "small * small = 2 powr (- 1000)"
  "big * big = 2 powr 1000" "big / small = 2 powr 1000" "small / big = 2 powr (- 1000)"
  "small \<le> big"
proof -
  show "0 < small" by (simp add: small_def)
  have "(2::real) powr (- 500) \<le> 2 powr 0" by (intro powr_mono) simp_all
  then show s1: "small \<le> 1" by (simp add: small_def)
  have "(2::real) powr 0 \<le> 2 powr 500" by (intro powr_mono) simp_all
  then show b1: "1 \<le> big" by (simp add: big_def)
  show "small * small = 2 powr (- 1000)"
    unfolding small_def powr_add [symmetric] by simp
  show "big * big = 2 powr 1000"
    unfolding big_def powr_add [symmetric] by simp
  have "big / small = 2 powr (500 - (- 500))"
    unfolding big_def small_def by (rule powr_diff [symmetric])
  then show "big / small = 2 powr 1000" by simp
  have "small / big = 2 powr (- 500 - 500)"
    unfolding big_def small_def by (rule powr_diff [symmetric])
  then show "small / big = 2 powr (- 1000)" by simp
  show "small \<le> big" using s1 b1 by linarith
qed


lemma powers_of_two:
  "(1::real) \<le> 2 powr 1000" "(2::real) powr 1000 \<le> 2 powr 1023"
  "2 * (2::real) powr 1000 = 2 powr 1001" "2 * (2::real) powr 1001 = 2 powr 1002"
  "2 * (2::real) powr 1002 = 2 powr 1003" "(1::real) \<le> 2 powr 1002"
  "(2::real) powr 1002 \<le> 2 powr 1023" "(2::real) powr 1003 + 1 \<le> 2 powr 1023"
  "(1::real) \<le> 2 powr 1003 + 1" "(2::real) powr 1001 \<le> 2 powr 1023"
  "(1::real) \<le> 2 powr 1001"
proof -
  have d: "\<And>n::real. 2 * 2 powr n = 2 powr (1 + n)"
    using powr_add [of "2::real" 1] by simp
  show "(1::real) \<le> 2 powr 1000" "(1::real) \<le> 2 powr 1002" "(1::real) \<le> 2 powr 1001"
    using powr_mono [of 0 1000 "2::real"] powr_mono [of 0 1002 "2::real"]
      powr_mono [of 0 1001 "2::real"] by simp_all
  then show "(1::real) \<le> 2 powr 1003 + 1" using powr_ge_zero [of "2::real" 1003] by linarith
  show "(2::real) powr 1000 \<le> 2 powr 1023" "(2::real) powr 1002 \<le> 2 powr 1023"
    "(2::real) powr 1001 \<le> 2 powr 1023"
    by (intro powr_mono; simp)+
  show "2 * (2::real) powr 1000 = 2 powr 1001" "2 * (2::real) powr 1001 = 2 powr 1002"
    "2 * (2::real) powr 1002 = 2 powr 1003"
    unfolding d by simp_all
  have "(2::real) powr 1003 + 1 \<le> 2 powr 1003 + 2 powr 1003"
    using powr_mono [of 0 1003 "2::real"] by simp
  also have "\<dots> = 2 * 2 powr 1003" by simp
  also have "\<dots> = 2 powr (1 + 1003)" by (rule d)
  also have "\<dots> \<le> 2 powr 1023" by (intro powr_mono) simp_all
  finally show "(2::real) powr 1003 + 1 \<le> 2 powr 1023" .
qed

lemma overflow_600:
  "round64 (2 powr 600 * 2 powr 600) = PInf" "round64 (2 powr 601 * 2 powr 601) = PInf"
proof -
  have "(2::real) powr 600 * 2 powr 600 = 2 powr (600 + 600)" by (rule powr_add [symmetric])
  moreover have "(2::real) powr 1024 \<le> 2 powr (600 + 600)" by (intro powr_mono) simp_all
  ultimately show "round64 (2 powr 600 * 2 powr 600) = PInf"
    by (simp only: round64_overflow)
  have "(2::real) powr 601 * 2 powr 601 = 2 powr (601 + 601)" by (rule powr_add [symmetric])
  moreover have "(2::real) powr 1024 \<le> 2 powr (601 + 601)" by (intro powr_mono) simp_all
  ultimately show "round64 (2 powr 601 * 2 powr 601) = PInf"
    by (simp only: round64_overflow)
qed

section \<open>Facts about the solvers\<close>

lemma pyth_legs_result:
  assumes "\<not> isNaN a" and "\<not> isNaN b"
  shows "calculatePythagoras fin a b c =
     SetResult \<lparr>val = jssqrt (jsadd (jsmul a a) (jsmul b b)),
                steps = map2 (\<lambda>t m. \<lparr>step_text = t, step_math = m\<rparr>)
                          leg_leg_labels (leg_leg_steps fin a b)\<rparr>"
  using assms
  by (simp add: calculatePythagoras_def Let_def step_def leg_leg_labels_def leg_leg_steps_def)

lemma pyth_val_cases:
  assumes "calculatePythagoras fin a b c = SetResult r"
  shows "(\<not> isNaN a \<and> \<not> isNaN b \<and> val r = jssqrt (jsadd (jsmul a a) (jsmul b b))) \<or>
         (\<not> isNaN a \<and> isNaN b \<and> \<not> isNaN c \<and> \<not> jsle c a \<and>
            val r = jssqrt (jssub (jsmul c c) (jsmul a a))) \<or>
         (isNaN a \<and> \<not> isNaN b \<and> \<not> isNaN c \<and> \<not> jsle c b \<and>
            val r = jssqrt (jssub (jsmul c c) (jsmul b b)))"
proof (cases "\<not> isNaN a \<and> \<not> isNaN b")
  case True
  then show ?thesis using assms by (auto simp: calculatePythagoras_def Let_def)
next
  case ab: False
  show ?thesis
  proof (cases "\<not> isNaN a \<and> \<not> isNaN c")
    case True
    then show ?thesis using assms ab
      by (cases "jsle c a") (auto simp: calculatePythagoras_def Let_def)
  next
    case False
    then show ?thesis using assms ab
      by (cases "jsle c b"; cases "\<not> isNaN b \<and> \<not> isNaN c")
         (auto simp: calculatePythagoras_def Let_def)
  qed
qed

lemma rendered_always: "0 < f \<Longrightarrow> rendered fin f x"
  using toFixed_rounds [of _ f fin] by (cases x) (simp_all add: rendered_def)

lemma trig_result:
  assumes "0 < ang" and "ang < 90" and "\<not> isNaN v"
  shows "\<exists>r. calculateTrig fin lib (Num ang) sd v = SetResult r \<and>
            sin_r r = jssin lib (angleRad_of (Num ang)) \<and>
            cos_r r = jscos lib (angleRad_of (Num ang)) \<and>
            tan_r r = jstan lib (angleRad_of (Num ang)) \<and>
            (sd = Side_c \<longrightarrow> side_c r = v \<and>
               side_a r = jsmul v (jssin lib (angleRad_of (Num ang))) \<and>
               side_b r = jsmul v (jscos lib (angleRad_of (Num ang)))) \<and>
            (sd = Side_a \<longrightarrow> side_a r = v \<and>
               side_c r = jsdiv v (jssin lib (angleRad_of (Num ang))) \<and>
               side_b r = jsdiv v (jstan lib (angleRad_of (Num ang)))) \<and>
            (sd = Side_b \<longrightarrow> side_b r = v \<and>
               side_c r = jsdiv v (jscos lib (angleRad_of (Num ang))) \<and>
               side_a r = jsmul v (jstan lib (angleRad_of (Num ang))))"
  using assms
  by (cases sd) (simp_all add: calculateTrig_def Let_def isNaN_def jsge_def angleRad_of_def)

lemma angleRad_finite:
  assumes "\<bar>ang\<bar> \<le> 90"
  shows "\<exists>t. angleRad_of (Num ang) = Num t"
proof -
  have b: "(1::real) \<le> 512" "(512::real) \<le> 2 powr 1023"
    using powr_mono [of 9 1023 "2::real"] by simp_all
  have "\<bar>ang * (884279719003555 / 2 ^ 48)\<bar> \<le> 90 * 4"
    unfolding abs_mult using assms by (intro mult_mono) simp_all
  then have "\<bar>ang * (884279719003555 / 2 ^ 48)\<bar> \<le> 512" by linarith
  from round64_bounded [OF this b]
  obtain y where y: "round64 (ang * (884279719003555 / 2 ^ 48)) = Num y" "\<bar>y\<bar> \<le> 2 * 512"
    by blast
  have "\<bar>y / 180\<bar> \<le> 512" using y(2) by simp
  from round64_bounded [OF this b] obtain t where "round64 (y / 180) = Num t" by blast
  then show ?thesis using y(1) by (simp add: angleRad_of_def Math_PI_def)
qed


lemma toFixed_window:
  assumes "0 \<le> y" and "y < 10 ^ 21"
    and "real n - 1 / 2 \<le> y * 10 ^ f" and "y * 10 ^ f < real n + 1 / 2"
  shows "toFixed fin f (Num y) = fixedDigits f n"
proof -
  have "\<lfloor>y * 10 ^ f + 1 / 2\<rfloor> = int n"
    using assms(3,4) by (simp add: floor_eq_iff)
  then show ?thesis using assms(1,2) by (simp add: toFixed_def Let_def)
qed

lemma shown_from_value:
  assumes "out = SetResult r" and "field r = Num y"
    and "0 \<le> y" and "y < 10 ^ 21"
    and "real n - 1 / 2 \<le> y * 10 ^ 4" and "y * 10 ^ 4 < real n + 1 / 2"
  shows "shown fin field out = Some (fixedDigits 4 n)"
  using toFixed_window [OF assms(3-6), of fin] assms(1,2) by (simp add: shown_def)

lemma sqrt3_bounds: "1.7320508 < sqrt 3 \<and> sqrt 3 < 1.7320509"
proof
  show "1.7320508 < sqrt 3" by (rule real_less_rsqrt) (simp add: power2_eq_square)
  show "sqrt 3 < 1.7320509" by (rule real_less_lsqrt) (simp_all add: power2_eq_square)
qed

lemma digits_30:
  "fixedDigits 4 50000 = ''5.0000''" "fixedDigits 4 86603 = ''8.6603''"
  "fixedDigits 4 5000 = ''0.5000''" "fixedDigits 4 8660 = ''0.8660''"
  "fixedDigits 4 5774 = ''0.5774''"
  by (simp_all add: eval_text)

lemma thirty_degrees_shown:
  assumes "accurate_at_30 lib"
  shows "shown fin side_a (calculateTrig fin lib (Num 30) Side_c (Num 10)) = Some ''5.0000''"
    and "shown fin side_b (calculateTrig fin lib (Num 30) Side_c (Num 10)) = Some ''8.6603''"
    and "shown fin sin_r (calculateTrig fin lib (Num 30) Side_c (Num 10)) = Some ''0.5000''"
    and "shown fin cos_r (calculateTrig fin lib (Num 30) Side_c (Num 10)) = Some ''0.8660''"
    and "shown fin tan_r (calculateTrig fin lib (Num 30) Side_c (Num 10)) = Some ''0.5774''"
proof -
  obtain s where s: "jssin lib (angleRad_of (Num 30)) = Num s" "\<bar>s - 1 / 2\<bar> \<le> 1 / 10 ^ 7"
    using assms by (cases "jssin lib (angleRad_of (Num 30))") (simp_all add: accurate_at_30_def)
  obtain k where k: "jscos lib (angleRad_of (Num 30)) = Num k" "\<bar>k - sqrt 3 / 2\<bar> \<le> 1 / 10 ^ 7"
    using assms by (cases "jscos lib (angleRad_of (Num 30))") (simp_all add: accurate_at_30_def)
  obtain t where t: "jstan lib (angleRad_of (Num 30)) = Num t" "\<bar>t - 1 / sqrt 3\<bar> \<le> 1 / 10 ^ 7"
    using assms by (cases "jstan lib (angleRad_of (Num 30))") (simp_all add: accurate_at_30_def)
  have tan3: "1 / sqrt 3 = sqrt 3 / 3" by (simp add: real_div_sqrt field_simps)
  have sb: "0.4999999 \<le> s" "s \<le> 0.5000001"
    using abs_window [OF s(2)] by simp_all
  have kb: "0.8660253 \<le> k" "k \<le> 0.8660256"
    using abs_window [OF k(2)] sqrt3_bounds by simp_all
  have tb: "0.57735016 \<le> t" "t \<le> 0.5773505"
    using abs_window [OF t(2)] sqrt3_bounds unfolding tan3 by simp_all
  have h: "(0::real) < 30" "(30::real) < 90" "\<not> isNaN (Num 10)" by (simp_all add: isNaN_def)
  from trig_result [OF h, of fin lib Side_c]
  obtain r where r: "calculateTrig fin lib (Num 30) Side_c (Num 10) = SetResult r"
    and f: "sin_r r = Num s" "cos_r r = Num k" "tan_r r = Num t"
      "side_a r = round64 (10 * s)" "side_b r = round64 (10 * k)"
    by (auto simp: s k t)
  obtain a where a: "round64 (10 * s) = Num a" "\<bar>a - 10 * s\<bar> \<le> 1 / 10 ^ 13"
    using round64_small_error [of "10 * s"] sb by auto
  obtain b where b: "round64 (10 * k) = Num b" "\<bar>b - 10 * k\<bar> \<le> 1 / 10 ^ 13"
    using round64_small_error [of "10 * k"] kb by auto
  have ab: "4.99999 \<le> a" "a \<le> 5.00001" using abs_window [OF a(2)] sb by simp_all
  have bb: "8.66025 \<le> b" "b \<le> 8.66026" using abs_window [OF b(2)] kb by simp_all
  show "shown fin side_a (calculateTrig fin lib (Num 30) Side_c (Num 10)) = Some ''5.0000''"
    using shown_from_value [OF r, of side_a a 50000 fin] f a ab by (simp add: digits_30)
  show "shown fin side_b (calculateTrig fin lib (Num 30) Side_c (Num 10)) = Some ''8.6603''"
    using shown_from_value [OF r, of side_b b 86603 fin] f b bb by (simp add: digits_30)
  show "shown fin sin_r (calculateTrig fin lib (Num 30) Side_c (Num 10)) = Some ''0.5000''"
    using shown_from_value [OF r, of sin_r s 5000 fin] f sb by (simp add: digits_30)
  show "shown fin cos_r (calculateTrig fin lib (Num 30) Side_c (Num 10)) = Some ''0.8660''"
    using shown_from_value [OF r, of cos_r k 8660 fin] f kb by (simp add: digits_30)
  show "shown fin tan_r (calculateTrig fin lib (Num 30) Side_c (Num 10)) = Some ''0.5774''"
    using shown_from_value [OF r, of tan_r t 5774 fin] f tb by (simp add: digits_30)
qed

lemma sampleLib_accurate: "accurate_at_30 sampleLib"
proof -
  have tan3: "1 / sqrt 3 = sqrt 3 / 3" by (simp add: real_div_sqrt field_simps)
  obtain t where t: "angleRad_of (Num 30) = Num t"
    using angleRad_finite [of 30] by auto
  have c: "0.86602540 \<le> (7800463371553963::real) / 2 ^ 53"
    "(7800463371553963::real) / 2 ^ 53 \<le> 0.86602541"
    "0.57735026 \<le> (1300077228592327::real) / 2 ^ 51"
    "(1300077228592327::real) / 2 ^ 51 \<le> 0.57735027"
    "0.4999999 \<le> (9007199254740991::real) / 2 ^ 54"
    "(9007199254740991::real) / 2 ^ 54 \<le> 0.5"
    by simp_all
  have "\<bar>(9007199254740991::real) / 2 ^ 54 - 1 / 2\<bar> \<le> 1 / 10 ^ 7"
    by (rule abs_leI) (use c in simp_all)
  moreover have "\<bar>(7800463371553963::real) / 2 ^ 53 - sqrt 3 / 2\<bar> \<le> 1 / 10 ^ 7"
    by (rule abs_leI) (use c sqrt3_bounds in simp_all)
  moreover have "\<bar>(1300077228592327::real) / 2 ^ 51 - sqrt 3 / 3\<bar> \<le> 1 / 10 ^ 7"
    by (rule abs_leI) (use c sqrt3_bounds in simp_all)
  ultimately show ?thesis
    unfolding accurate_at_30_def t tan3 by (simp add: sampleLib_def)
qed


lemma sampleLib_magnitudes:
  "magnitude_in (jssin sampleLib (angleRad_of (Num 30))) small big"
  "magnitude_in (jscos sampleLib (angleRad_of (Num 30))) small big"
  "magnitude_in (jstan sampleLib (angleRad_of (Num 30))) small big"
proof -
  obtain t where t: "angleRad_of (Num 30) = Num t"
    using angleRad_finite [of 30] by auto
  have "(2::real) powr (- 500) \<le> 2 powr (- 2)" by (intro powr_mono) simp_all
  also have "(2::real) powr (- 2) = 1 / 4" by (simp add: powr_minus_divide)
  finally have q: "small \<le> 1 / 4" by (simp add: small_def)
  show "magnitude_in (jssin sampleLib (angleRad_of (Num 30))) small big"
    and "magnitude_in (jscos sampleLib (angleRad_of (Num 30))) small big"
    and "magnitude_in (jstan sampleLib (angleRad_of (Num 30))) small big"
    unfolding t using q small_big(3) by (simp_all add: sampleLib_def)
qed


subsection \<open>Rounding errors of the two formulas\<close>








subsection \<open>Finite results\<close>

lemma product_finite:
  assumes "\<bar>x\<bar> \<le> big" and "\<bar>y\<bar> \<le> big"
  shows "\<exists>p. round64 (x * y) = Num p \<and> \<bar>p\<bar> \<le> 2 powr 1001 \<and> (0 \<le> x * y \<longrightarrow> 0 \<le> p)"
proof -
  have "\<bar>x * y\<bar> \<le> big * big" unfolding abs_mult using assms by (intro mult_mono) simp_all
  then have "\<bar>x * y\<bar> \<le> 2 powr 1000" by (simp only: small_big(5))
  from round64_bounded [OF this powers_of_two(1,2)] show ?thesis
    by (simp only: powers_of_two(3))
qed

lemma quotient_finite:
  assumes "\<bar>x\<bar> \<le> big" and "small \<le> \<bar>y\<bar>"
  shows "\<exists>p. jsdiv (Num x) (Num y) = Num p"
proof -
  have y0: "y \<noteq> 0" using assms(2) small_big(1) by auto
  have "\<bar>x\<bar> / \<bar>y\<bar> \<le> big / small" using assms small_big(1) by (intro frac_le) simp_all
  then have "\<bar>x / y\<bar> \<le> 2 powr 1000" by (simp only: small_big(6) abs_divide)
  from round64_bounded [OF this powers_of_two(1,2)] show ?thesis using y0 by auto
qed

lemma sqrt_finite:
  assumes "0 \<le> s" and "s \<le> 2 powr 1003"
  shows "\<exists>r. jssqrt (Num s) = Num r"
proof -
  have "sqrt s \<le> s + 1"
  proof (cases "s \<le> 1")
    case True
    then have "sqrt s \<le> sqrt 1" by (intro real_sqrt_le_mono)
    then have "sqrt s \<le> 1" by simp
    then show ?thesis using assms(1) by linarith
  next
    case False
    then have "sqrt s \<le> s" using real_sqrt_le_iff [of s "s\<^sup>2"] assms(1)
      by (simp add: power2_eq_square mult_le_cancel_left1 not_le)
    then show ?thesis by simp
  qed
  then have "\<bar>sqrt s\<bar> \<le> 2 powr 1003 + 1" using assms by simp
  from round64_bounded [OF this powers_of_two(9,8)] show ?thesis using assms(1) by auto
qed

lemma legs_finite:
  assumes "\<bar>x\<bar> \<le> big" and "\<bar>y\<bar> \<le> big"
  shows "\<exists>r. jssqrt (jsadd (jsmul (Num x) (Num x)) (jsmul (Num y) (Num y))) = Num r"
proof -
  obtain p where p: "round64 (x * x) = Num p" "\<bar>p\<bar> \<le> 2 powr 1001" "0 \<le> p"
    using product_finite [OF assms(1,1)] by auto
  obtain q where q: "round64 (y * y) = Num q" "\<bar>q\<bar> \<le> 2 powr 1001" "0 \<le> q"
    using product_finite [OF assms(2,2)] by auto
  have "\<bar>p + q\<bar> \<le> 2 * 2 powr 1001" using p q by linarith
  then have "\<bar>p + q\<bar> \<le> 2 powr 1002" by (simp only: powers_of_two(4))
  from round64_bounded [OF this powers_of_two(6,7)]
  obtain s where s: "round64 (p + q) = Num s" "\<bar>s\<bar> \<le> 2 * 2 powr 1002" "0 \<le> s"
    using p(3) q(3) by auto
  have "s \<le> 2 powr 1003" using s(2) unfolding powers_of_two(5) by linarith
  from sqrt_finite [OF s(3) this] show ?thesis using p(1) q(1) s(1) by simp
qed

lemma leg_finite:
  assumes "\<bar>x\<bar> \<le> big" and "\<bar>z\<bar> \<le> big" and "x * x \<le> z * z"
  shows "\<exists>r. jssqrt (jssub (jsmul (Num z) (Num z)) (jsmul (Num x) (Num x))) = Num r"
proof -
  obtain p where p: "round64 (z * z) = Num p" "\<bar>p\<bar> \<le> 2 powr 1001" "0 \<le> p"
    using product_finite [OF assms(2,2)] by auto
  obtain q where q: "round64 (x * x) = Num q" "0 \<le> q" "q \<le> p"
    using round64_mono_nonneg [OF _ assms(3) p(1)] by auto
  have "\<bar>p - q\<bar> \<le> 2 powr 1001" using p q by linarith
  from round64_bounded [OF this powers_of_two(11,10)]
  obtain d where d: "round64 (p - q) = Num d" "\<bar>d\<bar> \<le> 2 * 2 powr 1001" "0 \<le> d"
    using q(3) by auto
  have "d \<le> 2 powr 1003"
    using d(2) powr_mono [of 1002 1003 "2::real"] by (simp only: powers_of_two(4)) simp
  from sqrt_finite [OF d(3) this] show ?thesis using p(1) q(1) d(1) by simp
qed

section \<open>The right-triangle solver: which branch runs\<close>

text \<open>
  C1, as the code has it: with none or one of the three values present the call does
  nothing: no result and no alert. (With all three present the call does produce a
  result, as shown next and in C10.)
\<close>

theorem pythagoras_few_values_noop:
  "count_present a b c \<le> 1 \<Longrightarrow> calculatePythagoras fin a b c = NoOp"
  by (auto simp: count_present_def present_def calculatePythagoras_def split: if_splits)

theorem pythagoras_few_values_noop_witness:
  "count_present (Num 3) NaN NaN \<le> 1 \<and>
   calculatePythagoras integerString (Num 3) NaN NaN = NoOp"
  using pythagoras_few_values_noop [of "Num 3" NaN NaN integerString]
  by (simp add: count_present_def present_def isNaN_def)

text \<open>
  C1 as stated fails where three values are present: for a = 3, b = 4, c = 5 the call
  sets a result, whose value is 5.
\<close>

theorem pythagoras_three_values_counterexample:
  "count_present (Num 3) (Num 4) (Num 5) = 3 \<and>
   map_option val (produced (calculatePythagoras integerString (Num 3) (Num 4) (Num 5)))
     = Some (Num 5)"
  by (simp add: count_present_def present_def isNaN_def calculatePythagoras_def Let_def)



text \<open>
  C4: with exactly one leg \<open>l\<close> and the hypotenuse \<open>c\<close> present, the call raises the
  hypotenuse alert if and only if \<open>c <= l\<close>, and then sets no result; otherwise it
  sets the result \<open>sqrt (c * c - l * l)\<close> with the four steps of \<open>leg_hyp_steps\<close>.
  Both positions of the leg behave alike.
\<close>

theorem pythagoras_leg_hypotenuse:
  assumes "\<not> isNaN l" and "\<not> isNaN c"
  shows "(calculatePythagoras fin l NaN c = Alert hypotenuse_alert \<longleftrightarrow> jsle c l) \<and>
         (calculatePythagoras fin NaN l c = Alert hypotenuse_alert \<longleftrightarrow> jsle c l) \<and>
         (jsle c l \<longrightarrow> produced (calculatePythagoras fin l NaN c) = None \<and>
                         produced (calculatePythagoras fin NaN l c) = None) \<and>
         (\<not> jsle c l \<longrightarrow>
            (\<exists>r. calculatePythagoras fin l NaN c = SetResult r \<and>
                 val r = jssqrt (jssub (jsmul c c) (jsmul l l)) \<and>
                 map step_math (steps r) = leg_hyp_steps fin ''a'' ''b'' l c) \<and>
            (\<exists>r. calculatePythagoras fin NaN l c = SetResult r \<and>
                 val r = jssqrt (jssub (jsmul c c) (jsmul l l)) \<and>
                 map step_math (steps r) = leg_hyp_steps fin ''b'' ''a'' l c))"
  using assms
  by (simp add: calculatePythagoras_def Let_def isNaN_def leg_hyp_steps_def step_def)

theorem pythagoras_leg_hypotenuse_witness:
  "\<not> isNaN (Num 3) \<and> \<not> isNaN (Num 5) \<and> \<not> jsle (Num 5) (Num 3) \<and> jsle (Num 5) (Num 5) \<and>
   map_option val (produced (calculatePythagoras integerString (Num 3) NaN (Num 5)))
     = Some (Num 4) \<and>
   map_option val (produced (calculatePythagoras integerString NaN (Num 3) (Num 5)))
     = Some (Num 4) \<and>
   calculatePythagoras integerString (Num 5) NaN (Num 5) = Alert hypotenuse_alert \<and>
   calculatePythagoras integerString NaN (Num 5) (Num 5) = Alert hypotenuse_alert"
  using pythagoras_leg_hypotenuse [of "Num 3" "Num 5" integerString]
        pythagoras_leg_hypotenuse [of "Num 5" "Num 5" integerString]
  by (auto simp: isNaN_def)

section \<open>The trigonometric solver: guards and consistency\<close>

text \<open>
  C6: the call does nothing when the angle or the side value is \<open>NaN\<close>; on two
  numbers it raises the angle alert exactly when the angle is \<open><= 0\<close> or \<open>>= 90\<close>
  and sets a result otherwise; the angles 0 and 90 themselves are rejected.
\<close>

theorem trig_guards:
  "(isNaN ang \<or> isNaN v \<longrightarrow> calculateTrig fin lib ang sd v = NoOp) \<and>
   (\<not> isNaN ang \<and> \<not> isNaN v \<longrightarrow>
      (calculateTrig fin lib ang sd v = Alert angle_alert
         \<longleftrightarrow> jsle ang (Num 0) \<or> jsge ang (Num 90)) \<and>
      (\<not> jsle ang (Num 0) \<and> \<not> jsge ang (Num 90)
         \<longrightarrow> produced (calculateTrig fin lib ang sd v) \<noteq> None)) \<and>
   calculateTrig fin lib (Num 0) sd (Num 5) = Alert angle_alert \<and>
   calculateTrig fin lib (Num 90) sd (Num 5) = Alert angle_alert"
  by (simp add: calculateTrig_def Let_def isNaN_def jsge_def)

theorem trig_guards_witness:
  "isNaN NaN \<and> calculateTrig integerString sampleLib NaN Side_c (Num 5) = NoOp \<and>
   calculateTrig integerString sampleLib (Num 30) Side_c NaN = NoOp \<and>
   \<not> isNaN (Num 30) \<and> \<not> isNaN (Num 10) \<and>
   \<not> jsle (Num 30) (Num 0) \<and> \<not> jsge (Num 30) (Num 90) \<and>
   calculateTrig integerString sampleLib (Num 30) Side_c (Num 10) \<noteq> Alert angle_alert \<and>
   produced (calculateTrig integerString sampleLib (Num 30) Side_c (Num 10)) \<noteq> None \<and>
   jsle (Num (- 1)) (Num 0) \<and>
   calculateTrig integerString sampleLib (Num (- 1)) Side_a (Num 10) = Alert angle_alert \<and>
   jsge (Num 120) (Num 90) \<and>
   calculateTrig integerString sampleLib (Num 120) Side_b (Num 10) = Alert angle_alert"
  using trig_guards [of NaN "Num 5" integerString sampleLib Side_c]
        trig_guards [of "Num 30" NaN integerString sampleLib Side_c]
        trig_guards [of "Num 30" "Num 10" integerString sampleLib Side_c]
        trig_guards [of "Num (- 1)" "Num 10" integerString sampleLib Side_a]
        trig_guards [of "Num 120" "Num 10" integerString sampleLib Side_b]
  by (simp add: isNaN_def jsge_def)

text \<open>
  C9: in every result of the trigonometric solver the three ratios are \<open>sin\<close>,
  \<open>cos\<close> and \<open>tan\<close> of the one angle in radians, and the sides satisfy, exactly and
  with the result's own ratio fields: \<open>a = c * sin\<close> and \<open>b = c * cos\<close> when the
  hypotenuse was given, \<open>c = a / sin\<close> and \<open>b = a / tan\<close> when the opposite leg was,
  \<open>c = b / cos\<close> and \<open>a = b * tan\<close> when the adjacent leg was.
\<close>

theorem trig_fields_consistent:
  assumes "\<not> isNaN ang" and "\<not> isNaN v"
    and "\<not> jsle ang (Num 0)" and "\<not> jsge ang (Num 90)"
  shows "\<exists>r. calculateTrig fin lib ang sd v = SetResult r \<and>
           sin_r r = jssin lib (jsdiv (jsmul ang Math_PI) (Num 180)) \<and>
           cos_r r = jscos lib (jsdiv (jsmul ang Math_PI) (Num 180)) \<and>
           tan_r r = jstan lib (jsdiv (jsmul ang Math_PI) (Num 180)) \<and>
           (sd = Side_c \<longrightarrow> side_a r = jsmul (side_c r) (sin_r r) \<and>
                              side_b r = jsmul (side_c r) (cos_r r)) \<and>
           (sd = Side_a \<longrightarrow> side_c r = jsdiv (side_a r) (sin_r r) \<and>
                              side_b r = jsdiv (side_a r) (tan_r r)) \<and>
           (sd = Side_b \<longrightarrow> side_c r = jsdiv (side_b r) (cos_r r) \<and>
                              side_a r = jsmul (side_b r) (tan_r r))"
  using assms by (cases sd) (simp_all add: calculateTrig_def Let_def)

theorem trig_fields_consistent_witness:
  "\<not> isNaN (Num 30) \<and> \<not> isNaN (Num 10) \<and>
   \<not> jsle (Num 30) (Num 0) \<and> \<not> jsge (Num 30) (Num 90) \<and>
   (\<exists>r. calculateTrig integerString sampleLib (Num 30) Side_c (Num 10) = SetResult r \<and>
        side_a r = jsmul (side_c r) (sin_r r) \<and> side_b r = jsmul (side_c r) (cos_r r)) \<and>
   (\<exists>r. calculateTrig integerString sampleLib (Num 30) Side_a (Num 10) = SetResult r \<and>
        side_c r = jsdiv (side_a r) (sin_r r) \<and> side_b r = jsdiv (side_a r) (tan_r r)) \<and>
   (\<exists>r. calculateTrig integerString sampleLib (Num 30) Side_b (Num 10) = SetResult r \<and>
        side_c r = jsdiv (side_b r) (cos_r r) \<and> side_a r = jsmul (side_b r) (tan_r r))"
proof -
  have p: "\<not> isNaN (Num 30)" "\<not> isNaN (Num 10)"
    "\<not> jsle (Num 30) (Num 0)" "\<not> jsge (Num 30) (Num 90)"
    by (simp_all add: isNaN_def jsge_def)
  show ?thesis
    using p trig_fields_consistent [OF p, of integerString sampleLib Side_c]
      trig_fields_consistent [OF p, of integerString sampleLib Side_a]
      trig_fields_consistent [OF p, of integerString sampleLib Side_b]
    by blast
qed

section \<open>The right-triangle solver: values and derivations\<close>

text \<open>
  C3, as the code has it: for numeric a and b, with c absent, the call sets the result
  \<^verbatim>\<open>Math.sqrt(a*a + b*b)\<close>, computed in binary64, with six steps in the order of
  \<open>leg_leg_labels\<close> and \<open>leg_leg_steps\<close>: the known legs, the formula, the
  substitution, the two squares, their sum, the result. Each square and the sum is
  rendered to exactly two decimals, and the result to exactly four, whenever the
  number shown is finite and below \<open>10^21\<close> in magnitude. For a = 3 and b = 4 the
  result shows as 5.0000 and the fourth step reads \<open>c = sqrt{9.00 + 16.00}\<close> behind
  its backslash.
\<close>

theorem pythagoras_legs_derivation:
  assumes "\<not> isNaN a" and "\<not> isNaN b"
  shows "(\<exists>r. calculatePythagoras fin a b NaN = SetResult r \<and>
            val r = jssqrt (jsadd (jsmul a a) (jsmul b b)) \<and>
            map step_text (steps r) = leg_leg_labels \<and>
            map step_math (steps r) = leg_leg_steps fin a b) \<and>
         rendered fin 2 (jsmul a a) \<and>
         rendered fin 2 (jsmul b b) \<and>
         rendered fin 2 (jsadd (jsmul a a) (jsmul b b)) \<and>
         rendered fin 4 (jssqrt (jsadd (jsmul a a) (jsmul b b))) \<and>
         shown fin val (calculatePythagoras fin (Num 3) (Num 4) NaN) = Some ''5.0000'' \<and>
         math_at 3 (calculatePythagoras fin (Num 3) (Num 4) NaN)
           = Some (''c = '' @ bs @ ''sqrt{9.00 + 16.00}'')"
proof -
  have n: "\<not> isNaN (Num 3)" "\<not> isNaN (Num 4)" by (simp_all add: isNaN_def)
  have res: "\<exists>r. calculatePythagoras fin a b NaN = SetResult r \<and>
            val r = jssqrt (jsadd (jsmul a a) (jsmul b b)) \<and>
            map step_text (steps r) = leg_leg_labels \<and>
            map step_math (steps r) = leg_leg_steps fin a b"
    unfolding pyth_legs_result [OF assms]
    by (simp add: leg_leg_labels_def leg_leg_steps_def)
  have ex1: "shown fin val (calculatePythagoras fin (Num 3) (Num 4) NaN) = Some ''5.0000''"
    unfolding pyth_legs_result [OF n] by (simp add: shown_def eval_text)
  have ex2: "math_at 3 (calculatePythagoras fin (Num 3) (Num 4) NaN)
           = Some (''c = '' @ bs @ ''sqrt{9.00 + 16.00}'')"
    unfolding pyth_legs_result [OF n]
    by (simp add: leg_leg_labels_def leg_leg_steps_def eval_text)
  show ?thesis using res ex1 ex2 by (simp add: rendered_always)
qed

theorem pythagoras_legs_derivation_witness:
  "\<not> isNaN (Num 3) \<and> \<not> isNaN (Num 4) \<and>
   map_option val (produced (calculatePythagoras integerString (Num 3) (Num 4) NaN))
     = Some (Num 5) \<and>
   shown integerString val (calculatePythagoras integerString (Num 3) (Num 4) NaN)
     = Some ''5.0000'' \<and>
   math_at 0 (calculatePythagoras integerString (Num 3) (Num 4) NaN) = Some ''a = 3, b = 4'' \<and>
   math_at 3 (calculatePythagoras integerString (Num 3) (Num 4) NaN)
     = Some (''c = '' @ bs @ ''sqrt{9.00 + 16.00}'') \<and>
   math_at 4 (calculatePythagoras integerString (Num 3) (Num 4) NaN)
     = Some (''c = '' @ bs @ ''sqrt{25.00}'') \<and>
   math_at 5 (calculatePythagoras integerString (Num 3) (Num 4) NaN)
     = Some (''c '' @ bs @ ''approx 5.0000'') \<and>
   jsmul (Num 3) (Num 3) = Num 9 \<and> \<bar>9 :: real\<bar> < 10 ^ 21 \<and>
   fixedNotation 2 (toFixed integerString 2 (Num 9)) \<and>
   \<bar>fixedValue (toFixed integerString 2 (Num 9)) - 9\<bar> \<le> 1 / (2 * 10 ^ 2)"
proof -
  have h: "\<not> isNaN (Num 3)" "\<not> isNaN (Num 4)" by (simp_all add: isNaN_def)
  have i: "integerString 3 = ''3''" "integerString 4 = ''4''"
    by (simp_all add: integerString_def Let_def digitsOf.simps digitChar_def)
  from pythagoras_legs_derivation [OF h, of integerString]
  obtain r where r: "calculatePythagoras integerString (Num 3) (Num 4) NaN = SetResult r"
    and v: "val r = jssqrt (jsadd (jsmul (Num 3) (Num 3)) (jsmul (Num 4) (Num 4)))"
    and m: "map step_math (steps r) = leg_leg_steps integerString (Num 3) (Num 4)"
    and n: "rendered integerString 2 (jsmul (Num 3) (Num 3))"
    by blast
  have len: "length (steps r) = 6"
    using arg_cong [OF m, of length] by (simp add: leg_leg_steps_def)
  have at: "\<And>i. i < 6 \<Longrightarrow> step_math (steps r ! i) = leg_leg_steps integerString (Num 3) (Num 4) ! i"
    using m len by (metis nth_map)
  have v5: "val r = Num 5" using v by simp
  have n9: "fixedNotation 2 (toFixed integerString 2 (Num 9)) \<and>
            \<bar>fixedValue (toFixed integerString 2 (Num 9)) - 9\<bar> \<le> 1 / (2 * 10 ^ 2)"
    using n by (simp add: rendered_def)
  show ?thesis
    using h n9 unfolding r
    by (simp add: shown_def v5 len at leg_leg_steps_def i eval_text)
qed

text \<open>
  C3 as stated fails for large inputs: from \<open>10^21\<close> on \<^verbatim>\<open>toFixed\<close> answers in
  exponent notation. For a = \<open>10^11\<close> and b = 1 the square of a is \<open>10^22\<close>, a
  binary64 value, and the fourth step shows it as \<open>1e+22\<close>, not to two decimals.
\<close>

theorem pythagoras_large_square_counterexample:
  "math_at 3 (calculatePythagoras integerString (Num (10 ^ 11)) (Num 1) NaN)
     = Some (''c = '' @ bs @ ''sqrt{1e+22 + 1.00}'') \<and>
   \<not> fixedNotation 2 (toFixed integerString 2 (jsmul (Num (10 ^ 11)) (Num (10 ^ 11))))"
proof -
  have h: "\<not> isNaN (Num (10 ^ 11))" "\<not> isNaN (Num 1)" by (simp_all add: isNaN_def)
  have sq: "jsmul (Num 100000000000) (Num 100000000000) = Num 10000000000000000000000"
    using round64_ten_22 by simp
  have one: "jsmul (Num 1) (Num 1) = Num 1" by simp
  have i: "integerString 10000000000000000000000 = ''1e+22''"
    by (simp add: integerString_def Let_def digitsOf.simps digitChar_def stripZeros_def)
  have t: "toFixed integerString 2 (Num 10000000000000000000000) = ''1e+22''"
    using i by (simp add: toFixed_def Let_def)
  have o: "toFixed integerString 2 (Num 1) = ''1.00''" by (simp add: eval_text)
  have n: "\<not> fixedNotation 2 ''1e+22''"
    by (simp add: fixedNotation_def dropSign_def isDigit_def Let_def)
  show ?thesis
    unfolding pyth_legs_result [OF h]
    using n by (simp add: leg_leg_labels_def leg_leg_steps_def sq one t o del: jsmul.simps)
qed

section \<open>The trigonometric solver: the sides\<close>

text \<open>
  C5: for an angle strictly between 0 and 90 degrees and a numeric side value, with
  \<open>t\<close> the angle in radians as computed, \<^verbatim>\<open>angle * Math.PI / 180\<close>, the result
  carries the library's sine, cosine and tangent of \<open>t\<close>, and its sides are, by the
  known side: hypotenuse c: \<open>a = c * sin t\<close> and \<open>b = c * cos t\<close>; opposite leg a:
  \<open>c = a / sin t\<close> and \<open>b = a / tan t\<close>; adjacent leg b: \<open>c = b / cos t\<close> and
  \<open>a = b * tan t\<close>, each product and quotient rounded to binary64. For the angle 30
  and the hypotenuse 10, with any library whose three values at the computed angle are
  within \<open>10^-7\<close> of the exact ones, the page shows a = 5.0000, b = 8.6603,
  sin = 0.5000, cos = 0.8660, tan = 0.5774.
\<close>

theorem trig_sides_by_branch:
  assumes "0 < ang" and "ang < 90" and "\<not> isNaN v"
  shows "(\<exists>r. calculateTrig fin lib (Num ang) sd v = SetResult r \<and>
            sin_r r = jssin lib (angleRad_of (Num ang)) \<and>
            cos_r r = jscos lib (angleRad_of (Num ang)) \<and>
            tan_r r = jstan lib (angleRad_of (Num ang)) \<and>
            (sd = Side_c \<longrightarrow> side_c r = v \<and>
               side_a r = jsmul v (jssin lib (angleRad_of (Num ang))) \<and>
               side_b r = jsmul v (jscos lib (angleRad_of (Num ang)))) \<and>
            (sd = Side_a \<longrightarrow> side_a r = v \<and>
               side_c r = jsdiv v (jssin lib (angleRad_of (Num ang))) \<and>
               side_b r = jsdiv v (jstan lib (angleRad_of (Num ang)))) \<and>
            (sd = Side_b \<longrightarrow> side_b r = v \<and>
               side_c r = jsdiv v (jscos lib (angleRad_of (Num ang))) \<and>
               side_a r = jsmul v (jstan lib (angleRad_of (Num ang))))) \<and>
         (accurate_at_30 lib \<longrightarrow>
            shown fin side_a (calculateTrig fin lib (Num 30) Side_c (Num 10)) = Some ''5.0000'' \<and>
            shown fin side_b (calculateTrig fin lib (Num 30) Side_c (Num 10)) = Some ''8.6603'' \<and>
            shown fin sin_r (calculateTrig fin lib (Num 30) Side_c (Num 10)) = Some ''0.5000'' \<and>
            shown fin cos_r (calculateTrig fin lib (Num 30) Side_c (Num 10)) = Some ''0.8660'' \<and>
            shown fin tan_r (calculateTrig fin lib (Num 30) Side_c (Num 10)) = Some ''0.5774'')"
  using trig_result [OF assms, of fin lib sd] thirty_degrees_shown [of lib fin] by blast

theorem trig_sides_by_branch_witness:
  "(0::real) < 30 \<and> (30::real) < 90 \<and> \<not> isNaN (Num 10) \<and> accurate_at_30 sampleLib \<and>
   map_option side_c (produced (calculateTrig integerString sampleLib (Num 30) Side_c (Num 10)))
     = Some (Num 10) \<and>
   map_option side_a (produced (calculateTrig integerString sampleLib (Num 30) Side_a (Num 10)))
     = Some (Num 10) \<and>
   map_option side_b (produced (calculateTrig integerString sampleLib (Num 30) Side_b (Num 10)))
     = Some (Num 10) \<and>
   shown integerString side_a (calculateTrig integerString sampleLib (Num 30) Side_c (Num 10))
     = Some ''5.0000'' \<and>
   shown integerString side_b (calculateTrig integerString sampleLib (Num 30) Side_c (Num 10))
     = Some ''8.6603'' \<and>
   shown integerString sin_r (calculateTrig integerString sampleLib (Num 30) Side_c (Num 10))
     = Some ''0.5000'' \<and>
   shown integerString cos_r (calculateTrig integerString sampleLib (Num 30) Side_c (Num 10))
     = Some ''0.8660'' \<and>
   shown integerString tan_r (calculateTrig integerString sampleLib (Num 30) Side_c (Num 10))
     = Some ''0.5774''"
proof -
  have h: "(0::real) < 30" "(30::real) < 90" "\<not> isNaN (Num 10)" by (simp_all add: isNaN_def)
  note th = trig_sides_by_branch [OF h, of integerString sampleLib]
  from th [of Side_c] obtain r1
    where r1: "calculateTrig integerString sampleLib (Num 30) Side_c (Num 10) = SetResult r1"
      "side_c r1 = Num 10"
    by blast
  from th [of Side_a] obtain r2
    where r2: "calculateTrig integerString sampleLib (Num 30) Side_a (Num 10) = SetResult r2"
      "side_a r2 = Num 10"
    by blast
  from th [of Side_b] obtain r3
    where r3: "calculateTrig integerString sampleLib (Num 30) Side_b (Num 10) = SetResult r3"
      "side_b r3 = Num 10"
    by blast
  have sides: "map_option side_c (produced (calculateTrig integerString sampleLib (Num 30) Side_c (Num 10)))
     = Some (Num 10)"
    "map_option side_a (produced (calculateTrig integerString sampleLib (Num 30) Side_a (Num 10)))
     = Some (Num 10)"
    "map_option side_b (produced (calculateTrig integerString sampleLib (Num 30) Side_b (Num 10)))
     = Some (Num 10)"
    by (simp_all add: r1 r2 r3)
  show ?thesis using h sampleLib_accurate sides th [of Side_c] by blast
qed




section \<open>The right-triangle solver: round trip and finiteness\<close>




text \<open>
  C2 as stated fails: a negative leg passes the guard \<open>c <= a\<close>, and for a = -5 and
  c = 3 the result is \<open>sqrt (9 - 25)\<close>, that is \<open>NaN\<close>; and squares overflow, so
  that for a = b = \<open>2^600\<close> the result is infinite.
\<close>

theorem negative_leg_counterexample:
  "map_option val (produced (calculatePythagoras integerString (Num (- 5)) NaN (Num 3)))
     = Some NaN \<and>
   map_option val (produced (calculatePythagoras integerString
      (Num (2 powr 600)) (Num (2 powr 600)) NaN)) = Some PInf"
  using overflow_600
  by (simp add: calculatePythagoras_def Let_def isNaN_def del: powr_numeral)

text \<open>
  C2, as the code has it: every numeric field of a result that either solver sets is a
  finite number, provided that the inputs are blank or finite numbers of magnitude at
  most \<open>2^500\<close>; that in a leg-and-hypotenuse call the square of the leg does not
  exceed the square of the hypotenuse (so for every non-negative leg that passes the
  guard); and that the library's sine, cosine and tangent of the computed angle are
  finite with magnitudes between \<open>2^-500\<close> and \<open>2^500\<close>.
\<close>

theorem results_are_finite:
  assumes "moderate a" and "moderate b" and "moderate c" and "leg_within a b c"
    and "moderate v"
    and "magnitude_in (jssin lib (angleRad_of ang)) small big"
    and "magnitude_in (jscos lib (angleRad_of ang)) small big"
    and "magnitude_in (jstan lib (angleRad_of ang)) small big"
  shows "(\<forall>r. calculatePythagoras fin a b c = SetResult r \<longrightarrow> isFinite (val r)) \<and>
         (\<forall>t. calculateTrig fin lib ang sd v = SetResult t \<longrightarrow>
            isFinite (side_a t) \<and> isFinite (side_b t) \<and> isFinite (side_c t) \<and>
            isFinite (sin_r t) \<and> isFinite (cos_r t) \<and> isFinite (tan_r t))"
proof -
  have pyth: "isFinite (val r)" if r: "calculatePythagoras fin a b c = SetResult r" for r
  proof -
    from pyth_val_cases [OF r] show ?thesis
    proof (elim disjE conjE)
      assume n: "\<not> isNaN a" "\<not> isNaN b"
        and v: "val r = jssqrt (jsadd (jsmul a a) (jsmul b b))"
      obtain x y where "a = Num x" "b = Num y" "\<bar>x\<bar> \<le> big" "\<bar>y\<bar> \<le> big"
        using n assms(1,2) by (cases a; cases b) (auto simp: isNaN_def)
      then show ?thesis using legs_finite [of x y] v by auto
    next
      assume n: "\<not> isNaN a" "isNaN b" "\<not> isNaN c"
        and v: "val r = jssqrt (jssub (jsmul c c) (jsmul a a))"
      obtain x z where "a = Num x" "c = Num z" "\<bar>x\<bar> \<le> big" "\<bar>z\<bar> \<le> big" "x * x \<le> z * z"
        using n assms(1,3,4) by (cases a; cases c) (auto simp: isNaN_def)
      then show ?thesis using leg_finite [of x z] v by auto
    next
      assume n: "isNaN a" "\<not> isNaN b" "\<not> isNaN c"
        and v: "val r = jssqrt (jssub (jsmul c c) (jsmul b b))"
      obtain y z where "b = Num y" "c = Num z" "\<bar>y\<bar> \<le> big" "\<bar>z\<bar> \<le> big" "y * y \<le> z * z"
        using n assms(2,3,4) by (cases b; cases c) (auto simp: isNaN_def)
      then show ?thesis using leg_finite [of y z] v by auto
    qed
  qed
  have trig: "isFinite (side_a t) \<and> isFinite (side_b t) \<and> isFinite (side_c t) \<and>
        isFinite (sin_r t) \<and> isFinite (cos_r t) \<and> isFinite (tan_r t)"
    if t: "calculateTrig fin lib ang sd v = SetResult t" for t
  proof -
    obtain x w where xw: "ang = Num x" "v = Num w" "0 < x" "x < 90" "\<bar>w\<bar> \<le> big"
      using assms(5) t
      by (cases ang; cases v)
         (auto simp: calculateTrig_def isNaN_def jsge_def not_le split: if_splits)
    obtain s where s: "jssin lib (angleRad_of (Num x)) = Num s" "small \<le> \<bar>s\<bar>" "\<bar>s\<bar> \<le> big"
      using assms(6) unfolding xw by (cases "jssin lib (angleRad_of (Num x))") simp_all
    obtain k where k: "jscos lib (angleRad_of (Num x)) = Num k" "small \<le> \<bar>k\<bar>" "\<bar>k\<bar> \<le> big"
      using assms(7) unfolding xw by (cases "jscos lib (angleRad_of (Num x))") simp_all
    obtain u where u: "jstan lib (angleRad_of (Num x)) = Num u" "small \<le> \<bar>u\<bar>" "\<bar>u\<bar> \<le> big"
      using assms(8) unfolding xw by (cases "jstan lib (angleRad_of (Num x))") simp_all
    have nn: "\<not> isNaN (Num w)" by (simp add: isNaN_def)
    note f = trig_result [OF xw(3,4) nn, of fin lib sd, unfolded s(1) k(1) u(1)]
    have m: "\<exists>p. jsmul (Num w) (Num s) = Num p" "\<exists>p. jsmul (Num w) (Num k) = Num p"
      "\<exists>p. jsmul (Num w) (Num u) = Num p"
      using product_finite [OF xw(5) s(3)] product_finite [OF xw(5) k(3)]
        product_finite [OF xw(5) u(3)] by auto
    have d: "\<exists>p. jsdiv (Num w) (Num s) = Num p" "\<exists>p. jsdiv (Num w) (Num k) = Num p"
      "\<exists>p. jsdiv (Num w) (Num u) = Num p"
      using quotient_finite [OF xw(5) s(2)] quotient_finite [OF xw(5) k(2)]
        quotient_finite [OF xw(5) u(2)] by auto
    show ?thesis
      using f t m d unfolding xw by (cases sd) auto
  qed
  show ?thesis using pyth trig by blast
qed

theorem results_are_finite_witness:
  "moderate (Num 3) \<and> moderate NaN \<and> moderate (Num 5) \<and> leg_within (Num 3) NaN (Num 5) \<and>
   moderate (Num 10) \<and>
   magnitude_in (jssin sampleLib (angleRad_of (Num 30))) small big \<and>
   magnitude_in (jscos sampleLib (angleRad_of (Num 30))) small big \<and>
   magnitude_in (jstan sampleLib (angleRad_of (Num 30))) small big \<and>
   (\<exists>r. calculatePythagoras integerString (Num 3) NaN (Num 5) = SetResult r \<and>
        isFinite (val r)) \<and>
   (\<exists>t. calculateTrig integerString sampleLib (Num 30) Side_c (Num 10) = SetResult t \<and>
        isFinite (side_a t) \<and> isFinite (side_b t) \<and> isFinite (side_c t) \<and>
        isFinite (sin_r t) \<and> isFinite (cos_r t) \<and> isFinite (tan_r t))"
proof -
  have "(2::real) powr 4 \<le> 2 powr 500" by (intro powr_mono) simp_all
  then have b: "3 \<le> big" "5 \<le> big" "10 \<le> big" by (simp_all add: big_def)
  have h: "moderate (Num 3)" "moderate NaN" "moderate (Num 5)"
    "leg_within (Num 3) NaN (Num 5)" "moderate (Num 10)"
    using b by simp_all
  obtain r where r: "calculatePythagoras integerString (Num 3) NaN (Num 5) = SetResult r"
    by (simp add: calculatePythagoras_def Let_def isNaN_def)
  obtain t where t: "calculateTrig integerString sampleLib (Num 30) Side_c (Num 10) = SetResult t"
    using trig_result [of 30 "Num 10" integerString sampleLib Side_c] by (auto simp: isNaN_def)
  show ?thesis
    using h sampleLib_magnitudes r t
      results_are_finite [OF h sampleLib_magnitudes, of integerString Side_c]
    by blast
qed

end
